theory Spec2Isabelle
  imports Main "HOL-Library.Word"
begin

section \<open>Tensors, errors and the object store\<close>

text \<open>
  The notebook is glue code over TensorFlow 1.x. A tensor value is a shape together with
  its elements in row-major order; the element type is the tensor's dtype (\<open>8 word\<close> for
  uint8). Exceptions of the Python code are values of \<open>error\<close>.
\<close>

datatype error =
    InvalidArgumentError
  | KeyError string
  | TypeError
  | AttributeError
  | NotFoundError string
  | ValueError

record 'a tensor =
  shape :: "nat list"
  data :: "'a list"

definition num_elements :: "'a tensor \<Rightarrow> nat" where
  "num_elements t = prod_list (shape t)"

definition rank :: "'a tensor \<Rightarrow> nat" where
  "rank t = length (shape t)"

text \<open>
  Python objects live in a store indexed by reference. Three kinds of object matter here:
  a \<open>tf.Tensor\<close>, which is the output of an operation of the graph (the operation's name
  and the value it evaluates to) and cannot be changed once made; a \<open>numpy.ndarray\<close>,
  whose elements can be changed in place; and a dict, which holds its items in iteration
  order, each value being a reference.
\<close>

record 'a node =
  op_name :: string
  val :: "'a tensor"

datatype 'a obj =
    TensorObj "'a node"
  | NdarrayObj "'a tensor"
  | DictObj "(string \<times> nat) list"

text \<open>
  Beside the objects, the default graph keeps the dict \<open>_names_in_use\<close> (an association
  list here, the latest binding of a name first) and the current name scope
  (\<open>_name_stack\<close>, empty at the root).
\<close>

record 'a store =
  objects :: "'a obj list"
  names_in_use :: "(string \<times> nat) list"
  name_stack :: string

definition obj_at :: "'a obj list \<Rightarrow> nat \<Rightarrow> 'a obj option" where
  "obj_at h r = (if r < length h then Some (h ! r) else None)"

text \<open>Looking a tensor up by the name of its operation, as the export step does.\<close>

fun get_tensor_by_name :: "'a obj list \<Rightarrow> string \<Rightarrow> 'a tensor option" where
  "get_tensor_by_name [] name = None"
| "get_tensor_by_name (TensorObj n # h) name =
     (if op_name n = name then Some (val n) else get_tensor_by_name h name)"
| "get_tensor_by_name (NdarrayObj v # h) name = get_tensor_by_name h name"
| "get_tensor_by_name (DictObj items # h) name = get_tensor_by_name h name"

section \<open>Names of graph operations\<close>

text \<open>
  The two regular expressions of TensorFlow's \<open>ops.py\<close>: an operation name is
  \<open>[A-Za-z0-9.][A-Za-z0-9_.\\-/]*\<close>, a scope name inside another scope is
  \<open>[A-Za-z0-9_.\\-/]*\<close>.
\<close>

definition name_start_char :: "char \<Rightarrow> bool" where
  "name_start_char c =
     (c \<in> set ''ABCDEFGHIJKLMNOPQRSTUVWXYZabcdefghijklmnopqrstuvwxyz0123456789.'')"

definition name_char :: "char \<Rightarrow> bool" where
  "name_char c = (name_start_char c \<or> c \<in> set ''_-/'')"

definition valid_op_name :: "string \<Rightarrow> bool" where
  "valid_op_name name =
     (case name of [] \<Rightarrow> False | c # cs \<Rightarrow> name_start_char c \<and> list_all name_char cs)"

definition valid_scope_name :: "string \<Rightarrow> bool" where
  "valid_scope_name name = list_all name_char name"

text \<open>Python's \<open>str\<close> on an integer, and \<open>"%d"\<close> on a natural number.\<close>

fun digits :: "nat \<Rightarrow> string" where
  "digits n =
     (if n < 10 then [''0123456789'' ! n]
      else digits (n div 10) @ [''0123456789'' ! (n mod 10)])"

definition str :: "int \<Rightarrow> string" where
  "str i = (if i < 0 then CHR ''-'' # digits (nat (- i)) else digits (nat i))"

definition in_use :: "(string \<times> nat) list \<Rightarrow> string \<Rightarrow> bool" where
  "in_use used name = (name \<in> set (map fst used))"

definition use_count :: "(string \<times> nat) list \<Rightarrow> string \<Rightarrow> nat" where
  "use_count used name = (case map_of used name of None \<Rightarrow> 0 | Some i \<Rightarrow> i)"

text \<open>
  The loop of \<open>Graph.unique_name\<close>:
  \<^verbatim>\<open>while name in self._names_in_use: name = "%s_%d" % (base_name, i); i += 1\<close>.
  It ends because the names in use are finitely many and the candidates all differ.
\<close>

function while_in_use :: "string list \<Rightarrow> string \<Rightarrow> string \<Rightarrow> nat \<Rightarrow> string" where
  "while_in_use keys base_name name i =
     (if name \<in> set keys
      then while_in_use keys base_name (base_name @ ''_'' @ digits i) (Suc i)
      else name)"
  by pat_completeness auto
termination
proof (relation "measure (\<lambda>(keys, base_name, name, i).
          2 * card {j. i \<le> j \<and> base_name @ ''_'' @ digits j \<in> set keys}
          + (if name \<in> set keys then 1 else 0))", goal_cases)
  case 1
  show ?case by (rule wf_measure)
next
  case (2 keys base_name name i)
  define v where "v = (\<lambda>s. foldl (\<lambda>a c. 10 * a + (of_char c - 48)) (0::nat) s)"
  have d: "of_char (''0123456789'' ! k) - 48 = k" if "k < 10" for k :: nat
  proof -
    from that have "k \<in> {0, 1, 2, 3, 4, 5, 6, 7, 8, 9}" by auto
    then show ?thesis by auto
  qed
  have inv: "v (digits n) = n" for n
  proof (induction n rule: digits.induct)
    case (1 n)
    show ?case
    proof (cases "n < 10")
      case True
      then show ?thesis by (subst digits.simps) (simp add: v_def d del: digits.simps)
    next
      case False
      with 1 have "v (digits (n div 10)) = n div 10" by (simp del: digits.simps)
      with False show ?thesis
        by (subst digits.simps) (simp add: v_def d del: digits.simps)
    qed
  qed
  let ?f = "\<lambda>j. base_name @ ''_'' @ digits j"
  have inj: "inj ?f"
  proof (rule injI)
    fix a b assume "?f a = ?f b"
    then have "v (digits a) = v (digits b)" by (simp del: digits.simps)
    then show "a = b" by (simp add: inv del: digits.simps)
  qed
  let ?A = "\<lambda>i. {j. i \<le> j \<and> ?f j \<in> set keys}"
  have fin: "finite (?A i)"
  proof (rule finite_subset)
    show "?A i \<subseteq> ?f -` set keys" by (auto simp del: digits.simps)
    show "finite (?f -` set keys)" using inj by (simp add: finite_vimageI del: digits.simps)
  qed
  have sub: "?A (Suc i) \<subseteq> ?A i" by (auto simp del: digits.simps)
  show ?case
  proof (cases "?f i \<in> set keys")
    case True
    then have "i \<in> ?A i" and "i \<notin> ?A (Suc i)" by (auto simp del: digits.simps)
    with sub have "?A (Suc i) \<subset> ?A i" by blast
    with fin have "card (?A (Suc i)) < card (?A i)" by (rule psubset_card_mono)
    with 2 True show ?thesis by (simp del: digits.simps)
  next
    case False
    have "?A (Suc i) = ?A i"
    proof
      show "?A i \<subseteq> ?A (Suc i)"
      proof
        fix j assume j: "j \<in> ?A i"
        with False have "j \<noteq> i" by (auto simp del: digits.simps)
        with j show "j \<in> ?A (Suc i)" by (auto simp del: digits.simps)
      qed
    qed (rule sub)
    with 2 False show ?thesis by (simp del: digits.simps)
  qed
qed

text \<open>
  \<open>Graph.unique_name(name)\<close> in the scope \<open>stack\<close>: the name is prefixed with the scope,
  counted as used once more, and, when it was in use already, replaced by the first of
  \<open>name_i\<close>, \<open>name_(i+1)\<close>, ... that is not in use, which is then marked as well.
  Names are compared as they are written, as the TensorFlow of the notebook's time does.
\<close>

definition unique_name ::
  "string \<Rightarrow> (string \<times> nat) list \<Rightarrow> string \<Rightarrow> string \<times> (string \<times> nat) list"
where
  "unique_name stack used name =
     (let name1 = (if stack = [] then name else stack @ ''/'' @ name);
          i = use_count used name1;
          used1 = (name1, i + 1) # used
      in if 0 < i
         then (let name2 = while_in_use (map fst used1) name1 name1 i
               in (name2, (name2, 1) # used1))
         else (name1, used1))"

text \<open>
  \<open>Graph.name_scope(name)\<close>, entered from the scope \<open>stack\<close>: the result is the scope that
  holds inside the \<open>with\<close> block. An empty name goes back to the root, a name ending in a
  slash re-enters that scope as it is, and any other name is made unique.
\<close>

definition name_scope ::
  "string \<Rightarrow> (string \<times> nat) list \<Rightarrow> string \<Rightarrow> error + (string \<times> (string \<times> nat) list)"
where
  "name_scope stack used name =
     (if name = [] then Inr ([], used)
      else if \<not> (if stack = [] then valid_op_name name else valid_scope_name name)
      then Inl ValueError
      else if last name = CHR ''/'' then Inr (butlast name, used)
      else Inr (unique_name stack used name))"

text \<open>
  Adding an operation under its final name: the name must be a valid operation name
  (\<open>ValueError\<close> for the node name otherwise) and must not be the name of an operation
  the graph already has (a duplicate node name is refused).
\<close>

definition add_op :: "'a store \<Rightarrow> string \<Rightarrow> 'a tensor \<Rightarrow> error + (nat \<times> 'a store)" where
  "add_op g name v =
     (if \<not> valid_op_name name \<or> get_tensor_by_name (objects g) name \<noteq> None
      then Inl ValueError
      else Inr (length (objects g),
                g\<lparr>objects := objects g @ [TensorObj \<lparr>op_name = name, val = v\<rparr>]\<rparr>))"

text \<open>
  \<open>tensor += c\<close>. A \<open>tf.Tensor\<close> has no in-place addition, so Python evaluates
  \<open>tensor + c\<close> and rebinds the local variable: TensorFlow enters the name scope
  \<open>add\<close>, turns \<open>c\<close> into a constant called \<open>y\<close> inside it, and adds the operation, which
  takes the name of the scope. A \<open>numpy.ndarray\<close> is changed in place and the variable
  keeps denoting it. The addition is the dtype's own, applied to every element.
\<close>

definition tensor_iadd :: "'a::plus store \<Rightarrow> nat \<Rightarrow> 'a \<Rightarrow> error + (nat \<times> 'a store)" where
  "tensor_iadd g r c =
     (case obj_at (objects g) r of
        Some (TensorObj n) \<Rightarrow>
          (case name_scope (name_stack g) (names_in_use g) ''add'' of
             Inl e \<Rightarrow> Inl e
           | Inr (scope, used1) \<Rightarrow>
               (case unique_name scope used1 ''y'' of
                  (y_name, used2) \<Rightarrow>
                    (case add_op (g\<lparr>names_in_use := used2\<rparr>) y_name \<lparr>shape = [], data = [c]\<rparr> of
                       Inl e \<Rightarrow> Inl e
                     | Inr (y, g1) \<Rightarrow>
                         add_op g1 scope
                           ((val n)\<lparr>data := map (\<lambda>x. x + c) (data (val n))\<rparr>))))
      | Some (NdarrayObj v) \<Rightarrow>
          Inr (r, g\<lparr>objects :=
                      (objects g)[r := NdarrayObj (v\<lparr>data := map (\<lambda>x. x + c) (data v)\<rparr>)]\<rparr>)
      | _ \<Rightarrow> Inl TypeError)"

text \<open>
  \<open>tf.identity(tensor, name)\<close>: the name scope \<open>name\<close> is entered, a value that is not a
  tensor yet becomes a constant called \<open>input\<close> inside it, and the identity operation
  takes the name of the scope. So the operation is called \<open>name\<close> only when that name is
  valid and was not in use; otherwise the call fails or the operation gets another name.
\<close>

definition tf_identity :: "'a store \<Rightarrow> nat \<Rightarrow> string \<Rightarrow> error + (nat \<times> 'a store)" where
  "tf_identity g r name =
     (case name_scope (name_stack g) (names_in_use g) name of
        Inl e \<Rightarrow> Inl e
      | Inr (scope, used1) \<Rightarrow>
          (case obj_at (objects g) r of
             Some (TensorObj n) \<Rightarrow> add_op (g\<lparr>names_in_use := used1\<rparr>) scope (val n)
           | Some (NdarrayObj v) \<Rightarrow>
               (case unique_name scope used1 ''input'' of
                  (input_name, used2) \<Rightarrow>
                    (case add_op (g\<lparr>names_in_use := used2\<rparr>) input_name v of
                       Inl e \<Rightarrow> Inl e
                     | Inr (c, g1) \<Rightarrow> add_op g1 scope v))
           | _ \<Rightarrow> Inl TypeError))"

section \<open>Layer injection: the postprocessing function\<close>

definition OUTPUT_AS_IMAGE :: bool where
  "OUTPUT_AS_IMAGE = False"

definition LABEL_ID_OFFSET :: "'a::one" where
  "LABEL_ID_OFFSET = 1"

text \<open>
  The loop \<open>for name, tensor in object_detection_tensor_dict.items()\<close>, with the store and
  the list \<open>output_node_names\<close> threaded through.
\<close>

fun name_tensors ::
  "(string \<times> nat) list \<Rightarrow> 'a::{one,plus} store \<Rightarrow> string list \<Rightarrow>
     error + (string list \<times> 'a store)"
where
  "name_tensors [] h output_node_names = Inr (output_node_names, h)"
| "name_tensors ((name, tensor) # items) h output_node_names =
     (case (if name = ''detection_classes'' then tensor_iadd h tensor LABEL_ID_OFFSET
            else Inr (tensor, h)) of
        Inl e \<Rightarrow> Inl e
      | Inr (tensor1, h1) \<Rightarrow>
          (case tf_identity h1 tensor1 name of
             Inl e \<Rightarrow> Inl e
           | Inr (tensor2, h2) \<Rightarrow> name_tensors items h2 (output_node_names @ [name])))"

text \<open>
  \<open>object_detection_dict_to_tensor_dict(self, object_detection_tensor_dict, *args)\<close>.
  The argument is a reference to a dict; \<open>self\<close> is never read and is left out. The result
  is the returned pair together with the store after the call.
\<close>

definition object_detection_dict_to_tensor_dict ::
  "'a::{one,plus} store \<Rightarrow> nat \<Rightarrow> 'b list \<Rightarrow> error + ((string list \<times> bool) \<times> 'a store)"
where
  "object_detection_dict_to_tensor_dict h object_detection_tensor_dict args =
     (case obj_at (objects h) object_detection_tensor_dict of
        Some (DictObj items) \<Rightarrow>
          (case name_tensors items h [] of
             Inl e \<Rightarrow> Inl e
           | Inr (output_node_names, h') \<Rightarrow> Inr ((output_node_names, OUTPUT_AS_IMAGE), h'))
      | _ \<Rightarrow> Inl AttributeError)"

text \<open>
  What a caller may assume about the argument: the reference denotes a dict, a dict has
  each key once, and every value is a tensor of the graph.
\<close>

definition is_tensor :: "'a obj list \<Rightarrow> nat \<Rightarrow> bool" where
  "is_tensor h r = (case obj_at h r of Some (TensorObj n) \<Rightarrow> True | _ \<Rightarrow> False)"

definition tensor_values :: "'a obj list \<Rightarrow> (string \<times> nat) list \<Rightarrow> bool" where
  "tensor_values h items = list_all (\<lambda>(name, r). is_tensor h r) items"

definition tensor_dict :: "'a store \<Rightarrow> nat \<Rightarrow> (string \<times> nat) list \<Rightarrow> bool" where
  "tensor_dict h d items =
     (obj_at (objects h) d = Some (DictObj items) \<and> distinct (map fst items) \<and>
      tensor_values (objects h) items)"

text \<open>
  What the graph keeps true of itself: every name in use has a positive count, and the
  name of every operation is in use.
\<close>

definition named_in :: "(string \<times> nat) list \<Rightarrow> 'a obj \<Rightarrow> bool" where
  "named_in used ob = (case ob of TensorObj n \<Rightarrow> in_use used (op_name n) | _ \<Rightarrow> True)"

definition consistent_names :: "'a store \<Rightarrow> bool" where
  "consistent_names g =
     (list_all (\<lambda>(name, count). 0 < count) (names_in_use g) \<and>
      list_all (named_in (names_in_use g)) (objects g))"

text \<open>
  A key that \<open>tf.identity\<close> accepts as a name and makes unique itself: a valid operation
  name that does not end in a slash. A dict is ready for the loop when all its keys are
  such names and the call is made at the root name scope of a consistent graph.
\<close>

definition plain_name :: "string \<Rightarrow> bool" where
  "plain_name name = (valid_op_name name \<and> last name \<noteq> CHR ''/'')"

definition ready_for_names :: "'a store \<Rightarrow> (string \<times> nat) list \<Rightarrow> bool" where
  "ready_for_names g items =
     (name_stack g = [] \<and> consistent_names g \<and>
      list_all (\<lambda>(name, r). plain_name name) items)"


definition exposed_value :: "string \<Rightarrow> 'a::{one,plus} tensor \<Rightarrow> 'a tensor" where
  "exposed_value name v =
     (if name = ''detection_classes''
      then v\<lparr>data := map (\<lambda>x. x + LABEL_ID_OFFSET) (data v)\<rparr> else v)"

text \<open>The tensor found under a name in the store a call has left, if the call returned.\<close>

definition exposed_under :: "string \<Rightarrow> error + ('r \<times> 'a store) \<Rightarrow> 'a tensor option" where
  "exposed_under name result =
     (case result of Inl e \<Rightarrow> None | Inr (res, h') \<Rightarrow> get_tensor_by_name (objects h') name)"

text \<open>The object a reference denotes in the store a call has left, if the call returned.\<close>

definition object_after :: "nat \<Rightarrow> error + ('r \<times> 'a store) \<Rightarrow> 'a obj option" where
  "object_after r result =
     (case result of Inl e \<Rightarrow> None | Inr (res, h') \<Rightarrow> obj_at (objects h') r)"

text \<open>
  Stores for the examples. The first holds the output of a detection model: two tensors
  and the dict naming them. In the second the classes tensor is itself the output of an
  operation called \<open>detection_classes\<close>. In the third the dict has the key \<open>add\<close> after
  \<open>detection_classes\<close>. In the fourth the classes are a numpy array.
\<close>

definition example_items :: "(string \<times> nat) list" where
  "example_items = [(''detection_boxes'', 0), (''detection_classes'', 1)]"

definition example_store :: "int store" where
  "example_store =
     \<lparr>objects =
        [TensorObj \<lparr>op_name = ''Postprocessor/boxes'',
                    val = \<lparr>shape = [1, 1, 4], data = [0, 0, 1, 1]\<rparr>\<rparr>,
         TensorObj \<lparr>op_name = ''Postprocessor/classes'',
                    val = \<lparr>shape = [1, 2], data = [0, 2]\<rparr>\<rparr>,
         DictObj example_items],
      names_in_use =
        [(''Postprocessor/classes'', 1), (''Postprocessor/boxes'', 1), (''Postprocessor'', 1)],
      name_stack = []\<rparr>"

definition name_taken_store :: "int store" where
  "name_taken_store =
     \<lparr>objects =
        [TensorObj \<lparr>op_name = ''Postprocessor/boxes'',
                    val = \<lparr>shape = [1, 1, 4], data = [0, 0, 1, 1]\<rparr>\<rparr>,
         TensorObj \<lparr>op_name = ''detection_classes'',
                    val = \<lparr>shape = [1, 2], data = [0, 2]\<rparr>\<rparr>,
         DictObj example_items],
      names_in_use =
        [(''detection_classes'', 1), (''Postprocessor/boxes'', 1), (''Postprocessor'', 1)],
      name_stack = []\<rparr>"


definition ndarray_store :: "int store" where
  "ndarray_store =
     \<lparr>objects =
        [NdarrayObj \<lparr>shape = [1, 1, 4], data = [0, 0, 1, 1]\<rparr>,
         NdarrayObj \<lparr>shape = [1, 2], data = [0, 2]\<rparr>,
         DictObj example_items],
      names_in_use = [],
      name_stack = []\<rparr>"

section \<open>Layer injection: the preprocessing function\<close>

type_synonym bytes = "8 word list"

type_synonym image = "8 word tensor"

text \<open>
  \<open>tf.reshape(tensor, shape)\<close>. The requested sizes are Python integers; one of them may
  be \<open>-1\<close>, which stands for whatever size makes the element counts agree. The elements
  stay as they are, and the call fails when the element counts cannot agree.
\<close>

definition tf_reshape :: "'a tensor \<Rightarrow> int list \<Rightarrow> error + 'a tensor" where
  "tf_reshape t dims =
     (let n = int (num_elements t);
          known = prod_list (filter (\<lambda>d. d \<noteq> - 1) dims);
          wild = length (filter (\<lambda>d. d = - 1) dims)
      in if list_ex (\<lambda>d. d < - 1) dims \<or> 1 < wild then Inl InvalidArgumentError
         else if wild = 1 then
           (if known = 0 \<or> n mod known \<noteq> 0 then Inl InvalidArgumentError
            else Inr (t\<lparr>shape := map (\<lambda>d. nat (if d = - 1 then n div known else d)) dims\<rparr>))
         else if known = n then Inr (t\<lparr>shape := map nat dims\<rparr>)
         else Inl InvalidArgumentError)"

text \<open>
  \<open>tf.expand_dims(tensor, axis)\<close>: a dimension of size one is inserted at \<open>axis\<close>, counted
  from the end when negative.
\<close>

definition tf_expand_dims :: "'a tensor \<Rightarrow> int \<Rightarrow> error + 'a tensor" where
  "tf_expand_dims t axis =
     (let r = int (rank t);
          a = (if axis < 0 then axis + r + 1 else axis)
      in if 0 \<le> a \<and> a \<le> r
         then Inr (t\<lparr>shape := take (nat a) (shape t) @ [1] @ drop (nat a) (shape t)\<rparr>)
         else Inl InvalidArgumentError)"

text \<open>
  \<open>tf.image.decode_png(contents, channels=channels)\<close> and \<open>tf.image.decode_jpeg\<close>. The
  codec belongs to TensorFlow and is a parameter here: a function from the encoded bytes
  and the requested channel count to a uint8 image, or an error for bytes it rejects.
  The operation itself wants \<open>contents\<close> to be a scalar string.
\<close>

definition decode_image ::
  "(bytes \<Rightarrow> int \<Rightarrow> error + image) \<Rightarrow> bytes tensor \<Rightarrow> int \<Rightarrow> error + image"
where
  "decode_image codec contents channels =
     (if shape contents = [] \<and> length (data contents) = 1
      then codec (hd (data contents)) channels
      else Inl InvalidArgumentError)"

text \<open>
  \<open>LayerInjector.bitstring_to_uint8_tensor(self, input_bytes, channels, *args)\<close>.
\<close>

definition bitstring_to_uint8_tensor ::
  "(bytes \<Rightarrow> int \<Rightarrow> error + image) \<Rightarrow> bytes tensor \<Rightarrow> int \<Rightarrow> 'b list \<Rightarrow> error + image"
where
  "bitstring_to_uint8_tensor decode_png input_bytes channels args =
     (case tf_reshape input_bytes [] of
        Inl e \<Rightarrow> Inl e
      | Inr input_bytes1 \<Rightarrow>
          (case decode_image decode_png input_bytes1 channels of
             Inl e \<Rightarrow> Inl e
           | Inr input_tensor \<Rightarrow> tf_expand_dims input_tensor 0))"

text \<open>
  A stand-in codec for the examples: a raw format whose first two bytes are the height and
  the width, followed by the pixels, one byte per channel.
\<close>

fun raw_codec :: "bytes \<Rightarrow> int \<Rightarrow> error + image" where
  "raw_codec (h # w # pixels) channels =
     (if 0 < channels \<and> length pixels = unat h * unat w * nat channels
      then Inr \<lparr>shape = [unat h, unat w, nat channels], data = pixels\<rparr>
      else Inl InvalidArgumentError)"
| "raw_codec _ channels = Inl InvalidArgumentError"

text \<open>
  What \<open>tf.image.decode_png\<close> does with the channel count, by its documentation: 0 keeps
  the number of channels of the encoded image, 1, 3 and 4 ask for a grayscale, an RGB and an
  RGBA image, and every other number is refused. Reading the file itself is the codec's
  work and a parameter: for the bytes of a PNG file it gives the height, the width, the
  file's own number of channels, and the pixels as rendered with a given number of
  channels.
\<close>

record png =
  png_height :: nat
  png_width :: nat
  png_channels :: nat
  png_pixels :: "nat \<Rightarrow> 8 word list"

definition tf_decode_png :: "(bytes \<Rightarrow> png option) \<Rightarrow> bytes \<Rightarrow> int \<Rightarrow> error + image" where
  "tf_decode_png read_png contents channels =
     (if channels \<in> {0, 1, 3, 4}
      then (case read_png contents of
              None \<Rightarrow> Inl InvalidArgumentError
            | Some p \<Rightarrow>
                (let c = (if channels = 0 then png_channels p else nat channels)
                 in Inr \<lparr>shape = [png_height p, png_width p, c], data = png_pixels p c\<rparr>))
      else Inl InvalidArgumentError)"

text \<open>
  A stand-in reader for the examples: a raw format whose first three bytes are the height,
  the width and the number of channels, followed by the pixels. It renders the pixels
  with the file's own number of channels only, and blank otherwise.
\<close>

fun raw_png :: "bytes \<Rightarrow> png option" where
  "raw_png (h # w # c # pixels) =
     (if length pixels = unat h * unat w * unat c
      then Some \<lparr>png_height = unat h, png_width = unat w, png_channels = unat c,
                 png_pixels = (\<lambda>k. if k = unat c then pixels
                                     else replicate (unat h * unat w * k) 0)\<rparr>
      else None)"
| "raw_png _ = None"

section \<open>The inference adapter\<close>

text \<open>
  The detection model is built by the Object Detection API and reached through the
  closure. Its three methods, and \<open>tf.to_float\<close>, are parameters; each may fail, and each
  may change the state it works on (the graph under construction), which is threaded
  through the calls in the order the code makes them.
\<close>

record ('s, 'f, 'p, 'sh, 'o, 'r) detection_model =
  preprocess :: "'f \<Rightarrow> 's \<Rightarrow> error + (('p \<times> 'sh) \<times> 's)"
  predict :: "'p \<Rightarrow> 'sh \<Rightarrow> 's \<Rightarrow> error + ('o \<times> 's)"
  postprocess :: "'o \<Rightarrow> 'sh \<Rightarrow> 's \<Rightarrow> error + ('r \<times> 's)"

definition object_detection_inference ::
  "('a \<Rightarrow> 's \<Rightarrow> error + ('f \<times> 's)) \<Rightarrow> ('s, 'f, 'p, 'sh, 'o, 'r) detection_model \<Rightarrow>
     'a \<Rightarrow> 's \<Rightarrow> error + ('r \<times> 's)"
where
  "object_detection_inference to_float detection_model input_tensors s =
     (case to_float input_tensors s of
        Inl e \<Rightarrow> Inl e
      | Inr (inputs, s1) \<Rightarrow>
          (case preprocess detection_model inputs s1 of
             Inl e \<Rightarrow> Inl e
           | Inr ((preprocessed_inputs, true_image_shapes), s2) \<Rightarrow>
               (case predict detection_model preprocessed_inputs true_image_shapes s2 of
                  Inl e \<Rightarrow> Inl e
                | Inr (output_tensors, s3) \<Rightarrow>
                    (case postprocess detection_model output_tensors true_image_shapes s3 of
                       Inl e \<Rightarrow> Inl e
                     | Inr (postprocessed_tensors, s4) \<Rightarrow> Inr (postprocessed_tensors, s4)))))"

text \<open>
  A model for the examples whose state is the list of the stages applied so far: each
  stage appends its own name and passes a value on.
\<close>

definition traced :: "string \<Rightarrow> 'b \<Rightarrow> string list \<Rightarrow> error + ('b \<times> string list)" where
  "traced stage y log = Inr (y, log @ [stage])"

definition tracing_to_float :: "image \<Rightarrow> string list \<Rightarrow> error + (int tensor \<times> string list)" where
  "tracing_to_float t = traced ''to_float'' \<lparr>shape = shape t, data = map uint (data t)\<rparr>"

definition tracing_model ::
  "(string list, int tensor, int tensor, nat list, int tensor, (string \<times> int tensor) list)
     detection_model"
where
  "tracing_model =
     \<lparr>preprocess = (\<lambda>inputs. traced ''preprocess'' (inputs, shape inputs)),
      predict = (\<lambda>inputs shapes. traced ''predict'' inputs),
      postprocess = (\<lambda>outputs shapes. traced ''postprocess'' [(''detection_classes'', outputs)])\<rparr>"

section \<open>The client\<close>

record client =
  image_size :: int
  label_path :: string
  output_dir :: string
  output_filename :: string
  output_extension :: string

text \<open>
  The client's own \<open>bitstring_to_uint8_tensor(self, input_bytes)\<close>; the name is prefixed
  to tell it from the method of the layer injector.
\<close>

definition client_bitstring_to_uint8_tensor ::
  "(bytes \<Rightarrow> int \<Rightarrow> error + image) \<Rightarrow> client \<Rightarrow> bytes tensor \<Rightarrow> error + image"
where
  "client_bitstring_to_uint8_tensor decode_jpeg self input_bytes =
     (case tf_reshape input_bytes [] of
        Inl e \<Rightarrow> Inl e
      | Inr input_bytes1 \<Rightarrow>
          (case decode_image decode_jpeg input_bytes1 3 of
             Inl e \<Rightarrow> Inl e
           | Inr input_tensor \<Rightarrow>
               tf_reshape input_tensor [image_size self, image_size self, 3]))"

text \<open>
  What the client touches outside itself: the label map files it reads, a log of the label
  map loads, the paths it can write to, and the image files it has written.
\<close>

record 'lm world =
  label_files :: "string \<Rightarrow> 'lm option"
  labelmap_loads :: "string list"
  writable :: "string \<Rightarrow> bool"
  saved_images :: "(string \<times> image) list"

definition load_labelmap :: "string \<Rightarrow> 'lm world \<Rightarrow> error + ('lm \<times> 'lm world)" where
  "load_labelmap path w =
     (case label_files w path of
        None \<Rightarrow> Inl (NotFoundError path)
      | Some label_map \<Rightarrow> Inr (label_map, w\<lparr>labelmap_loads := labelmap_loads w @ [path]\<rparr>))"

definition save_image_array_as_png ::
  "image \<Rightarrow> string \<Rightarrow> 'lm world \<Rightarrow> error + 'lm world"
where
  "save_image_array_as_png image_array output_path w =
     (if writable w output_path
      then Inr (w\<lparr>saved_images := saved_images w @ [(output_path, image_array)]\<rparr>)
      else Inl (NotFoundError output_path))"

text \<open>
  The library functions that the client calls on values are parameters: \<open>np.asarray\<close> at
  the two dtypes the code asks for, which may reject a response field, the two functions
  of \<open>label_map_util\<close>, and the drawing function of \<open>visualization_utils\<close>, which returns
  the image array it has drawn on.
\<close>

record ('lm, 'cat, 'ci, 'v, 'f, 'u) libraries =
  asarray_float32 :: "'v \<Rightarrow> error + 'f"
  asarray_uint8 :: "'v \<Rightarrow> error + 'u"
  convert_label_map_to_categories :: "'lm \<Rightarrow> nat \<Rightarrow> bool \<Rightarrow> 'cat list"
  create_category_index :: "'cat list \<Rightarrow> 'ci"
  visualize_boxes_and_labels_on_image_array ::
    "image \<Rightarrow> 'f \<Rightarrow> 'u \<Rightarrow> 'f \<Rightarrow> 'ci \<Rightarrow> error + image"

definition get_category_index ::
  "('lm, 'cat, 'ci, 'v, 'f, 'u) libraries \<Rightarrow> client \<Rightarrow> 'lm world \<Rightarrow>
     error + ('ci \<times> 'lm world)"
where
  "get_category_index libs self w =
     (case load_labelmap (label_path self) w of
        Inl e \<Rightarrow> Inl e
      | Inr (label_map, w1) \<Rightarrow>
          (let categories = convert_label_map_to_categories libs label_map 1 True;
               category_index = create_category_index libs categories
           in Inr (category_index, w1)))"

text \<open>
  \<open>visualize(self, input_image, response, i)\<close>. The response is the decoded JSON object;
  a missing field raises \<open>KeyError\<close>. The image tensor is evaluated first; then the
  arguments of the drawing call are, from left to right, the category index last.
\<close>

definition visualize ::
  "('lm, 'cat, 'ci, 'v, 'f, 'u) libraries \<Rightarrow> (bytes \<Rightarrow> int \<Rightarrow> error + image) \<Rightarrow>
     client \<Rightarrow> bytes \<Rightarrow> (string \<Rightarrow> 'v option) \<Rightarrow> int \<Rightarrow> 'lm world \<Rightarrow> error + 'lm world"
where
  "visualize libs decode_jpeg self input_image response i w =
     (case response ''detection_boxes'' of
        None \<Rightarrow> Inl (KeyError ''detection_boxes'')
      | Some detection_boxes \<Rightarrow>
     (case response ''detection_classes'' of
        None \<Rightarrow> Inl (KeyError ''detection_classes'')
      | Some detection_classes \<Rightarrow>
     (case response ''detection_scores'' of
        None \<Rightarrow> Inl (KeyError ''detection_scores'')
      | Some detection_scores \<Rightarrow>
     (case client_bitstring_to_uint8_tensor decode_jpeg self \<lparr>shape = [], data = [input_image]\<rparr> of
        Inl e \<Rightarrow> Inl e
      | Inr image_array \<Rightarrow>
     (case asarray_float32 libs detection_boxes of
        Inl e \<Rightarrow> Inl e
      | Inr boxes \<Rightarrow>
     (case asarray_uint8 libs detection_classes of
        Inl e \<Rightarrow> Inl e
      | Inr classes \<Rightarrow>
     (case asarray_float32 libs detection_scores of
        Inl e \<Rightarrow> Inl e
      | Inr scores \<Rightarrow>
     (case get_category_index libs self w of
        Inl e \<Rightarrow> Inl e
      | Inr (category_index, w1) \<Rightarrow>
     (case visualize_boxes_and_labels_on_image_array libs image_array
             boxes classes scores category_index of
        Inl e \<Rightarrow> Inl e
      | Inr drawn_array \<Rightarrow>
          (let output_file = output_dir self @ ''/images/'' @ output_filename self @ str i
                               @ output_extension self
           in save_image_array_as_png drawn_array output_file w1))))))))))"

text \<open>
  Successive visualization calls on one client instance, each on the world the previous
  one left behind; a call is an input image, a response and the index of the image.
\<close>

fun visualize_calls ::
  "('lm, 'cat, 'ci, 'v, 'f, 'u) libraries \<Rightarrow> (bytes \<Rightarrow> int \<Rightarrow> error + image) \<Rightarrow>
     client \<Rightarrow> (bytes \<times> (string \<Rightarrow> 'v option) \<times> int) list \<Rightarrow> 'lm world \<Rightarrow> error + 'lm world"
where
  "visualize_calls libs decode_jpeg self [] w = Inr w"
| "visualize_calls libs decode_jpeg self ((input_image, response, i) # calls) w =
     (case visualize libs decode_jpeg self input_image response i w of
        Inl e \<Rightarrow> Inl e
      | Inr w1 \<Rightarrow> visualize_calls libs decode_jpeg self calls w1)"

text \<open>A client, a label map file and a response for the examples.\<close>

definition example_client :: client where
  "example_client =
     \<lparr>image_size = 4, label_path = ''label_map.pbtxt'', output_dir = ''output'',
      output_filename = ''output'', output_extension = ''.png''\<rparr>"

definition example_world :: "(nat \<times> string) list world" where
  "example_world =
     \<lparr>label_files = map_of [(''label_map.pbtxt'', [(1, ''tendie'')])],
      labelmap_loads = [],
      writable = (\<lambda>path. take 14 path = ''output/images/''),
      saved_images = []\<rparr>"

definition example_libraries ::
  "((nat \<times> string) list, nat \<times> string, nat \<Rightarrow> string option, int list, int list, 8 word list)
     libraries"
where
  "example_libraries =
     \<lparr>asarray_float32 = Inr,
      asarray_uint8 = (\<lambda>field. Inr (map word_of_int field)),
      convert_label_map_to_categories =
        (\<lambda>label_map max_num_classes use_display_name.
           filter (\<lambda>(i, name). 0 < i \<and> i \<le> max_num_classes) label_map),
      create_category_index = map_of,
      visualize_boxes_and_labels_on_image_array =
        (\<lambda>image_array boxes classes scores category_index.
           if list_all (\<lambda>c. category_index (unat c) \<noteq> None) classes
           then Inr image_array else Inl (KeyError ''category''))\<rparr>"

definition example_response :: "string \<Rightarrow> int list option" where
  "example_response =
     map_of [(''detection_boxes'', [0, 0, 1, 1]), (''detection_classes'', [1]),
             (''detection_scores'', [1])]"

definition example_image :: bytes where
  "example_image = 4 # 4 # replicate 48 0"

definition wide_image :: bytes where
  "wide_image = 2 # 8 # replicate 48 0"

section \<open>Properties of the names of operations\<close>

lemma obj_at_append: "r < length h \<Longrightarrow> obj_at (h @ g) r = obj_at h r"
  by (simp add: obj_at_def nth_append)

lemma obj_at_Some_less: "obj_at h r = Some ob \<Longrightarrow> r < length h"
  by (simp add: obj_at_def split: if_splits)

lemma is_tensor_append: "is_tensor h r \<Longrightarrow> is_tensor (h @ g) r"
  by (auto simp: is_tensor_def obj_at_def nth_append split: if_splits option.splits obj.splits)

lemma get_tensor_by_name_append:
  "get_tensor_by_name (h @ g) name =
     (case get_tensor_by_name h name of Some v \<Rightarrow> Some v | None \<Rightarrow> get_tensor_by_name g name)"
  by (induction h name rule: get_tensor_by_name.induct) auto

lemma not_in_use_no_tensor:
  "list_all (named_in used) h \<Longrightarrow> \<not> in_use used name \<Longrightarrow> get_tensor_by_name h name = None"
  by (induction h name rule: get_tensor_by_name.induct) (auto simp: named_in_def)

lemma digits_chars: "set (digits n) \<subseteq> set ''0123456789''"
proof (induction n rule: digits.induct)
  case (1 n)
  have d: "''0123456789'' ! k \<in> set ''0123456789''" if "k < 10" for k :: nat
    using that by (intro nth_mem) simp
  show ?case
  proof (cases "n < 10")
    case True
    then show ?thesis using d[of n] by (subst digits.simps) (simp del: digits.simps)
  next
    case False
    then have "set (digits (n div 10)) \<subseteq> set ''0123456789''" using 1 by simp
    moreover have "''0123456789'' ! (n mod 10) \<in> set ''0123456789''" by (rule d) simp
    ultimately show ?thesis using False
      by (subst digits.simps) (simp del: digits.simps)
  qed
qed

lemma digits_name_chars: "list_all name_char (digits n)"
proof -
  have "c \<in> set ''0123456789'' \<Longrightarrow> name_char c" for c
    by (auto simp: name_char_def name_start_char_def)
  with digits_chars[of n] show ?thesis by (auto simp: list_all_iff simp del: digits.simps)
qed

lemma valid_op_name_append:
  "valid_op_name xs \<Longrightarrow> list_all name_char ys \<Longrightarrow> valid_op_name (xs @ ys)"
  by (cases xs) (auto simp: valid_op_name_def)

lemma while_in_use_result:
  "while_in_use keys base_name name i \<notin> set keys \<and>
   (while_in_use keys base_name name i = name \<or>
    (\<exists>j. while_in_use keys base_name name i = base_name @ ''_'' @ digits j))"
proof (induction keys base_name name i rule: while_in_use.induct)
  case (1 keys base_name name i)
  show ?case
  proof (cases "name \<in> set keys")
    case True
    with 1 show ?thesis
      by (subst (1 2 3) while_in_use.simps) (auto simp del: while_in_use.simps digits.simps)
  next
    case False
    then show ?thesis by (subst (1 2 3) while_in_use.simps) (simp del: while_in_use.simps)
  qed
qed

text \<open>What \<open>unique_name\<close> returns, for a store whose counts are positive.\<close>

lemma unique_name_result:
  assumes "list_all (\<lambda>(name, count). 0 < count) used"
    and "unique_name stack used name = (u, used')"
  shows "\<not> in_use used u"
    and "in_use used' u"
    and "list_all (\<lambda>(name, count). 0 < count) used'"
    and "\<exists>ext. used' = ext @ used \<and>
           set (map fst ext) \<subseteq> {if stack = [] then name else stack @ ''/'' @ name, u}"
    and "u = (if stack = [] then name else stack @ ''/'' @ name) \<or>
         (\<exists>j. u = (if stack = [] then name else stack @ ''/'' @ name) @ ''_'' @ digits j)"
proof -
  let ?n = "if stack = [] then name else stack @ ''/'' @ name"
  let ?i = "use_count used ?n"
  let ?used1 = "(?n, ?i + 1) # used"
  show "\<not> in_use used u"
  proof (cases "0 < ?i")
    case True
    with assms(2) have "u = while_in_use (map fst ?used1) ?n ?n ?i"
      by (auto simp: unique_name_def Let_def simp del: while_in_use.simps)
    with while_in_use_result[of "map fst ?used1" ?n ?n ?i] show ?thesis
      by (auto simp: in_use_def simp del: while_in_use.simps)
  next
    case False
    with assms(2) have u: "u = ?n" by (auto simp: unique_name_def Let_def)
    from False have "map_of used ?n = None \<or> map_of used ?n = Some 0"
      by (auto simp: use_count_def split: option.splits)
    moreover have "map_of used ?n \<noteq> Some 0"
    proof
      assume "map_of used ?n = Some 0"
      then have "(?n, 0) \<in> set used" by (rule map_of_SomeD)
      with assms(1) show False by (auto simp: list_all_iff)
    qed
    ultimately have "map_of used ?n = None" by blast
    then show ?thesis using u by (simp add: in_use_def map_of_eq_None_iff)
  qed
  show "in_use used' u" and "list_all (\<lambda>(name, count). 0 < count) used'"
    and "\<exists>ext. used' = ext @ used \<and> set (map fst ext) \<subseteq> {?n, u}"
    using assms
    by (auto simp: unique_name_def Let_def in_use_def simp del: while_in_use.simps
        split: if_splits)
  show "u = ?n \<or> (\<exists>j. u = ?n @ ''_'' @ digits j)"
  proof (cases "0 < ?i")
    case True
    with assms(2) have "u = while_in_use (map fst ?used1) ?n ?n ?i"
      by (auto simp: unique_name_def Let_def simp del: while_in_use.simps)
    with while_in_use_result[of "map fst ?used1" ?n ?n ?i] show ?thesis
      by (auto simp del: while_in_use.simps digits.simps)
  next
    case False
    with assms(2) show ?thesis by (auto simp: unique_name_def Let_def)
  qed
qed

lemma unique_name_fresh:
  "\<not> in_use used name \<Longrightarrow> unique_name [] used name = (name, (name, 1) # used)"
  by (simp add: unique_name_def Let_def use_count_def in_use_def map_of_eq_None_iff[symmetric]
      del: while_in_use.simps)

section \<open>Properties of the postprocessing function\<close>

subsection \<open>The two TensorFlow calls of the loop body\<close>

lemma add_op_Inr:
  "add_op g name v = Inr (r, g') \<Longrightarrow>
     r = length (objects g) \<and>
     g' = g\<lparr>objects := objects g @ [TensorObj \<lparr>op_name = name, val = v\<rparr>]\<rparr>"
  by (auto simp: add_op_def split: if_splits)

lemma take3_append: "take 3 xs = ''add'' \<Longrightarrow> take 3 (xs @ ys) = ''add''"
  by (cases xs; cases "tl xs"; cases "tl (tl xs)") auto

lemma valid_add: "valid_op_name ''add''"
  by (simp add: valid_op_name_def name_start_char_def name_char_def)

text \<open>The names \<open>unique_name\<close> can return for a valid name that begins with \<open>add\<close>.\<close>

lemma unique_name_add:
  assumes "list_all (\<lambda>(name, count). 0 < count) used"
    and "unique_name stack used name = (u, used')"
    and "base = (if stack = [] then name else stack @ ''/'' @ name)"
    and "valid_op_name base" and "take 3 base = ''add''"
  shows "valid_op_name u" and "take 3 u = ''add''"
    and "\<exists>ext. used' = ext @ used \<and> list_all (\<lambda>x. take 3 x = ''add'') (map fst ext)"
    and "u = base \<or> (\<exists>j. u = base @ ''_'' @ digits j)"
proof -
  from unique_name_result(5)[OF assms(1,2)] assms(3)
  show u: "u = base \<or> (\<exists>j. u = base @ ''_'' @ digits j)" by simp
  have v: "valid_op_name (base @ ''_'' @ digits j)" for j
    by (rule valid_op_name_append[OF assms(4)])
       (simp add: digits_name_chars name_char_def del: digits.simps)
  from u v assms(4) show "valid_op_name u" by auto
  from u assms(5) show a: "take 3 u = ''add''" by (auto intro: take3_append)
  from unique_name_result(4)[OF assms(1,2)] assms(3) obtain ext where
    ext: "used' = ext @ used" and sub: "set (map fst ext) \<subseteq> {base, u}" by auto
  from sub a assms(5) have "list_all (\<lambda>x. take 3 x = ''add'') (map fst ext)"
    by (auto simp: list_all_iff)
  with ext show "\<exists>ext. used' = ext @ used \<and> list_all (\<lambda>x. take 3 x = ''add'') (map fst ext)"
    by blast
qed

lemma in_use_append: "in_use (ext @ used) x \<longleftrightarrow> in_use ext x \<or> in_use used x"
  by (auto simp: in_use_def)

text \<open>\<open>tensor += c\<close> on a tensor, at the root scope of a consistent graph.\<close>

lemma tensor_iadd_tensor:
  assumes "consistent_names g" and "name_stack g = []"
    and "obj_at (objects g) r = Some (TensorObj n)"
  shows "\<exists>y_name u ext.
           tensor_iadd g r c =
             Inr (Suc (length (objects g)),
                  g\<lparr>objects := objects g @
                       [TensorObj \<lparr>op_name = y_name, val = \<lparr>shape = [], data = [c]\<rparr>\<rparr>,
                        TensorObj \<lparr>op_name = u,
                                   val = (val n)\<lparr>data := map (\<lambda>x. x + c) (data (val n))\<rparr>\<rparr>],
                     names_in_use := ext @ names_in_use g\<rparr>) \<and>
           take 3 y_name = ''add'' \<and> take 3 u = ''add'' \<and>
           list_all (\<lambda>x. take 3 x = ''add'') (map fst ext) \<and>
           in_use (ext @ names_in_use g) y_name \<and> in_use (ext @ names_in_use g) u \<and>
           list_all (\<lambda>(name, count). 0 < count) (ext @ names_in_use g)"
proof -
  let ?used = "names_in_use g"
  from assms(1) have pos: "list_all (\<lambda>(name, count). 0 < count) ?used"
    and named: "list_all (named_in ?used) (objects g)"
    by (simp_all add: consistent_names_def)
  obtain u used1 where un: "unique_name [] ?used ''add'' = (u, used1)"
    by (cases "unique_name [] ?used ''add''")
  have scope: "name_scope (name_stack g) ?used ''add'' = Inr (u, used1)"
    using assms(2) un by (simp add: name_scope_def valid_add)
  note r1 = unique_name_result[OF pos un]
  have a1: "valid_op_name u" "take 3 u = ''add''"
    "\<exists>ext. used1 = ext @ ?used \<and> list_all (\<lambda>x. take 3 x = ''add'') (map fst ext)"
    using unique_name_add[OF pos un _ valid_add] by simp_all
  from a1(3) obtain e1 where e1: "used1 = e1 @ ?used"
    and e1add: "list_all (\<lambda>x. take 3 x = ''add'') (map fst e1)" by blast
  from a1(1) have une: "u \<noteq> []" by (auto simp: valid_op_name_def)
  obtain y_name used2 where yn: "unique_name u used1 ''y'' = (y_name, used2)"
    by (cases "unique_name u used1 ''y''")
  note r2 = unique_name_result[OF r1(3) yn]
  have vb: "valid_op_name (u @ ''/y'')"
    by (rule valid_op_name_append[OF a1(1)]) (simp add: name_char_def name_start_char_def)
  have tb: "take 3 (u @ ''/y'') = ''add''" by (rule take3_append[OF a1(2)])
  have a2: "valid_op_name y_name" "take 3 y_name = ''add''"
    "\<exists>ext. used2 = ext @ used1 \<and> list_all (\<lambda>x. take 3 x = ''add'') (map fst ext)"
    "y_name = u @ ''/y'' \<or> (\<exists>j. y_name = (u @ ''/y'') @ ''_'' @ digits j)"
    using unique_name_add[OF r1(3) yn _ vb tb] une by simp_all
  from a2(3) obtain e2 where e2: "used2 = e2 @ used1"
    and e2add: "list_all (\<lambda>x. take 3 x = ''add'') (map fst e2)" by blast
  from a2(4) have neq: "y_name \<noteq> u" by (auto simp del: digits.simps)
  from r2(1) e1 have "\<not> in_use ?used y_name" by (simp add: in_use_append)
  with named have noy: "get_tensor_by_name (objects g) y_name = None"
    by (rule not_in_use_no_tensor)
  from named r1(1) have nou: "get_tensor_by_name (objects g) u = None"
    by (rule not_in_use_no_tensor)
  let ?Y = "TensorObj \<lparr>op_name = y_name, val = \<lparr>shape = [], data = [c]\<rparr>\<rparr>"
  let ?g1 = "g\<lparr>names_in_use := used2, objects := objects g @ [?Y]\<rparr>"
  have s1: "add_op (g\<lparr>names_in_use := used2\<rparr>) y_name \<lparr>shape = [], data = [c]\<rparr> =
              Inr (length (objects g), ?g1)"
    using a2(1) noy by (simp add: add_op_def)
  have "get_tensor_by_name (objects ?g1) u = None"
    using nou neq by (simp add: get_tensor_by_name_append)
  then have s2: "add_op ?g1 u v = Inr (Suc (length (objects g)),
        ?g1\<lparr>objects := objects ?g1 @ [TensorObj \<lparr>op_name = u, val = v\<rparr>]\<rparr>)" for v
    using a1(1) by (simp add: add_op_def)
  have res: "tensor_iadd g r c =
      Inr (Suc (length (objects g)),
           g\<lparr>objects := objects g @
                [?Y, TensorObj \<lparr>op_name = u,
                            val = (val n)\<lparr>data := map (\<lambda>x. x + c) (data (val n))\<rparr>\<rparr>],
              names_in_use := (e2 @ e1) @ ?used\<rparr>)"
    unfolding tensor_iadd_def using assms(3) scope yn s1 s2 e1 e2 by simp
  have "in_use ((e2 @ e1) @ ?used) y_name" using r2(2) e1 e2 by simp
  moreover have "in_use ((e2 @ e1) @ ?used) u"
    using r1(2) e1 by (simp add: in_use_append)
  moreover have "list_all (\<lambda>(name, count). 0 < count) ((e2 @ e1) @ ?used)"
    using r2(3) e1 e2 by simp
  moreover have "list_all (\<lambda>x. take 3 x = ''add'') (map fst (e2 @ e1))"
    using e1add e2add by simp
  ultimately show ?thesis using res a1(2) a2(2) by blast
qed

lemma unique_name_valid:
  assumes "list_all (\<lambda>(name, count). 0 < count) used"
    and "unique_name [] used name = (u, used')"
    and "valid_op_name name"
  shows "valid_op_name u"
proof -
  from unique_name_result(5)[OF assms(1,2)]
  have u: "u = name \<or> (\<exists>j. u = name @ ''_'' @ digits j)" by simp
  have v: "valid_op_name (name @ ''_'' @ digits j)" for j
    by (rule valid_op_name_append[OF assms(3)])
       (simp add: digits_name_chars name_char_def del: digits.simps)
  from u v assms(3) show ?thesis by auto
qed

text \<open>\<open>tf.identity\<close> on a tensor under a plain name, at the root scope.\<close>

lemma tf_identity_tensor:
  assumes "consistent_names g" and "name_stack g = []"
    and "plain_name name"
    and "obj_at (objects g) r = Some (TensorObj n)"
  shows "\<exists>u ext.
           tf_identity g r name =
             Inr (length (objects g),
                  g\<lparr>objects := objects g @ [TensorObj \<lparr>op_name = u, val = val n\<rparr>],
                     names_in_use := ext @ names_in_use g\<rparr>) \<and>
           (u = name \<or> (\<exists>j. u = name @ ''_'' @ digits j)) \<and>
           (\<not> in_use (names_in_use g) name \<longrightarrow> u = name) \<and>
           set (map fst ext) \<subseteq> {name, u} \<and>
           \<not> in_use (names_in_use g) u \<and>
           in_use (ext @ names_in_use g) u \<and>
           list_all (\<lambda>(name, count). 0 < count) (ext @ names_in_use g)"
proof -
  let ?used = "names_in_use g"
  from assms(1) have pos: "list_all (\<lambda>(name, count). 0 < count) ?used"
    and named: "list_all (named_in ?used) (objects g)"
    by (simp_all add: consistent_names_def)
  from assms(3) have v: "valid_op_name name" and l: "last name \<noteq> CHR ''/''"
    by (simp_all add: plain_name_def)
  from v have ne: "name \<noteq> []" by (auto simp: valid_op_name_def)
  obtain u used1 where un: "unique_name [] ?used name = (u, used1)"
    by (cases "unique_name [] ?used name")
  have scope: "name_scope (name_stack g) ?used name = Inr (u, used1)"
    using assms(2) v l ne un by (simp add: name_scope_def)
  note r1 = unique_name_result[OF pos un]
  from r1(4) obtain ext where ext: "used1 = ext @ ?used"
    and sub: "set (map fst ext) \<subseteq> {name, u}" by auto
  have vu: "valid_op_name u" by (rule unique_name_valid[OF pos un v])
  from named r1(1) have "get_tensor_by_name (objects g) u = None"
    by (rule not_in_use_no_tensor)
  then have res: "tf_identity g r name =
      Inr (length (objects g),
           g\<lparr>objects := objects g @ [TensorObj \<lparr>op_name = u, val = val n\<rparr>],
              names_in_use := ext @ ?used\<rparr>)"
    unfolding tf_identity_def using scope vu assms(4) ext by (simp add: add_op_def)
  have fresh: "\<not> in_use ?used name \<longrightarrow> u = name"
    using un by (auto simp: unique_name_fresh)
  from res r1(1,2,3,5) sub fresh ext show ?thesis
    by (intro exI[of _ u] exI[of _ ext]) simp
qed

subsection \<open>The loop\<close>

lemma named_in_mono: "named_in used ob \<Longrightarrow> named_in (ext @ used) ob"
  by (cases ob) (auto simp: named_in_def in_use_def)

lemma add_prefix_not_free:
  "list_all (\<lambda>x. take 3 x = ''add'') (map fst ext) \<Longrightarrow> take 3 name \<noteq> ''add'' \<Longrightarrow>
     \<not> in_use ext name"
  by (auto simp: list_all_iff in_use_def)

lemma digits_last: "digits j \<noteq> [] \<and> last (digits j) \<in> set ''0123456789''"
proof -
  have ne: "digits j \<noteq> []" by (subst digits.simps) (simp del: digits.simps)
  then have "last (digits j) \<in> set (digits j)" by (rule last_in_set)
  with digits_chars[of j] ne show ?thesis by blast
qed

lemma numbered_name_not_classes: "name @ ''_'' @ digits j \<noteq> ''detection_classes''"
proof
  assume "name @ ''_'' @ digits j = ''detection_classes''"
  then have "last (name @ ''_'' @ digits j) = CHR ''s''" by (simp del: digits.simps)
  moreover have "last (name @ ''_'' @ digits j) = last (digits j)"
    using digits_last[of j] by (simp del: digits.simps)
  ultimately show False using digits_last[of j] by (auto simp del: digits.simps)
qed

text \<open>One pass of the loop body on a tensor under a plain name.\<close>

lemma step_shape:
  assumes "consistent_names g" and "name_stack g = []"
    and "plain_name name"
    and "obj_at (objects g) r = Some (TensorObj n)"
  shows "\<exists>gnew u ext.
          (case (if name = ''detection_classes'' then tensor_iadd g r LABEL_ID_OFFSET
                 else Inr (r, g)) of
             Inl e \<Rightarrow> Inl e
           | Inr (tensor1, h1) \<Rightarrow> tf_identity h1 tensor1 name) =
            Inr (length (objects g @ gnew),
                 g\<lparr>objects := objects g @ gnew @
                      [TensorObj \<lparr>op_name = u, val = exposed_value name (val n)\<rparr>],
                    names_in_use := ext @ names_in_use g\<rparr>) \<and>
          consistent_names
            (g\<lparr>objects := objects g @ gnew @
                      [TensorObj \<lparr>op_name = u, val = exposed_value name (val n)\<rparr>],
                    names_in_use := ext @ names_in_use g\<rparr>) \<and>
          (u = name \<or> (\<exists>j. u = name @ ''_'' @ digits j)) \<and>
          (\<not> in_use (names_in_use g) name \<longrightarrow> u = name) \<and>
          list_all (\<lambda>x. x = name \<or> x = u \<or> take 3 x = ''add'') (map fst ext) \<and>
          (name \<noteq> ''detection_classes'' \<longrightarrow> list_all (\<lambda>x. x = name \<or> x = u) (map fst ext)) \<and>
          (\<forall>x. take 3 x \<noteq> ''add'' \<longrightarrow> get_tensor_by_name gnew x = None)"
proof -
  let ?used = "names_in_use g"
  from assms(1) have pos: "list_all (\<lambda>(name, count). 0 < count) ?used"
    and named: "list_all (named_in ?used) (objects g)"
    by (simp_all add: consistent_names_def)
  show ?thesis
  proof (cases "name = ''detection_classes''")
    case True
    from tensor_iadd_tensor[OF assms(1,2,4), of LABEL_ID_OFFSET]
    obtain y_name a e1 where
      ia: "tensor_iadd g r LABEL_ID_OFFSET =
             Inr (Suc (length (objects g)),
                  g\<lparr>objects := objects g @
                       [TensorObj \<lparr>op_name = y_name, val = \<lparr>shape = [], data = [LABEL_ID_OFFSET]\<rparr>\<rparr>,
                        TensorObj \<lparr>op_name = a, val = exposed_value name (val n)\<rparr>],
                     names_in_use := e1 @ ?used\<rparr>)"
      and ty: "take 3 y_name = ''add''" and ta: "take 3 a = ''add''"
      and ea: "list_all (\<lambda>x. take 3 x = ''add'') (map fst e1)"
      and iy: "in_use (e1 @ ?used) y_name" and iu: "in_use (e1 @ ?used) a"
      and pe: "list_all (\<lambda>(name, count). 0 < count) (e1 @ ?used)"
      unfolding exposed_value_def using True by auto
    let ?gnew = "[TensorObj \<lparr>op_name = y_name, val = \<lparr>shape = [], data = [LABEL_ID_OFFSET]\<rparr>\<rparr>,
                  TensorObj \<lparr>op_name = a, val = exposed_value name (val n)\<rparr>]"
    let ?g1 = "g\<lparr>objects := objects g @ ?gnew, names_in_use := e1 @ ?used\<rparr>"
    have "list_all (named_in (e1 @ ?used)) (objects g)"
      using named by (auto simp: list_all_iff intro: named_in_mono)
    moreover have "list_all (named_in (e1 @ ?used)) ?gnew"
      using iy iu by (simp add: named_in_def)
    ultimately have c1: "consistent_names ?g1"
      using pe by (simp add: consistent_names_def)
    have s1: "name_stack ?g1 = []" using assms(2) by simp
    have o1: "obj_at (objects ?g1) (Suc (length (objects g))) =
        Some (TensorObj \<lparr>op_name = a, val = exposed_value name (val n)\<rparr>)"
      by (simp add: obj_at_def nth_append)
    from tf_identity_tensor[OF c1 s1 assms(3) o1] obtain u e2 where
      id: "tf_identity ?g1 (Suc (length (objects g))) name =
             Inr (length (objects ?g1),
                  ?g1\<lparr>objects := objects ?g1 @
                         [TensorObj \<lparr>op_name = u, val = exposed_value name (val n)\<rparr>],
                       names_in_use := e2 @ names_in_use ?g1\<rparr>)"
      and form: "u = name \<or> (\<exists>j. u = name @ ''_'' @ digits j)"
      and fresh: "\<not> in_use (names_in_use ?g1) name \<longrightarrow> u = name"
      and sub: "set (map fst e2) \<subseteq> {name, u}"
      and iu2: "in_use (e2 @ names_in_use ?g1) u"
      and pe2: "list_all (\<lambda>(name, count). 0 < count) (e2 @ names_in_use ?g1)"
      by auto
    let ?g2 = "g\<lparr>objects := objects g @ ?gnew @
                      [TensorObj \<lparr>op_name = u, val = exposed_value name (val n)\<rparr>],
                  names_in_use := (e2 @ e1) @ ?used\<rparr>"
    have body: "(case (if name = ''detection_classes'' then tensor_iadd g r LABEL_ID_OFFSET
                 else Inr (r, g)) of
             Inl e \<Rightarrow> Inl e
           | Inr (tensor1, h1) \<Rightarrow> tf_identity h1 tensor1 name) =
            Inr (length (objects g @ ?gnew), ?g2)"
      using True ia id by simp
    have c2: "consistent_names ?g2"
    proof -
      have "list_all (named_in ((e2 @ e1) @ ?used)) (objects g @ ?gnew)"
        using c1 named_in_mono[of "e1 @ ?used" _ e2]
        by (auto simp: consistent_names_def list_all_iff)
      moreover have "named_in ((e2 @ e1) @ ?used)
          (TensorObj \<lparr>op_name = u, val = exposed_value name (val n)\<rparr>)"
        using iu2 by (simp add: named_in_def)
      ultimately show ?thesis using pe2 by (simp add: consistent_names_def)
    qed
    have na: "take 3 name \<noteq> ''add''" using True by simp
    have fr: "\<not> in_use ?used name \<longrightarrow> u = name"
      using fresh add_prefix_not_free[OF ea na] by (simp add: in_use_append)
    have names: "list_all (\<lambda>x. x = name \<or> x = u \<or> take 3 x = ''add'') (map fst (e2 @ e1))"
      using sub ea by (auto simp: list_all_iff)
    have quiet: "\<forall>x. take 3 x \<noteq> ''add'' \<longrightarrow> get_tensor_by_name ?gnew x = None"
      using ty ta by auto
    show ?thesis
      using body c2 form fr names quiet True
      by (intro exI[of _ ?gnew] exI[of _ u] exI[of _ "e2 @ e1"]) simp
  next
    case False
    from tf_identity_tensor[OF assms] obtain u ext where
      id: "tf_identity g r name =
             Inr (length (objects g),
                  g\<lparr>objects := objects g @ [TensorObj \<lparr>op_name = u, val = val n\<rparr>],
                     names_in_use := ext @ ?used\<rparr>)"
      and form: "u = name \<or> (\<exists>j. u = name @ ''_'' @ digits j)"
      and fresh: "\<not> in_use ?used name \<longrightarrow> u = name"
      and sub: "set (map fst ext) \<subseteq> {name, u}"
      and iu: "in_use (ext @ ?used) u"
      and pe: "list_all (\<lambda>(name, count). 0 < count) (ext @ ?used)"
      by auto
    let ?g2 = "g\<lparr>objects := objects g @ [] @
                      [TensorObj \<lparr>op_name = u, val = exposed_value name (val n)\<rparr>],
                  names_in_use := ext @ ?used\<rparr>"
    have body: "(case (if name = ''detection_classes'' then tensor_iadd g r LABEL_ID_OFFSET
                 else Inr (r, g)) of
             Inl e \<Rightarrow> Inl e
           | Inr (tensor1, h1) \<Rightarrow> tf_identity h1 tensor1 name) =
            Inr (length (objects g @ []), ?g2)"
      using False id by (simp add: exposed_value_def)
    have c2: "consistent_names ?g2"
    proof -
      have "list_all (named_in (ext @ ?used)) (objects g)"
        using named by (auto simp: list_all_iff intro: named_in_mono)
      moreover have "named_in (ext @ ?used)
          (TensorObj \<lparr>op_name = u, val = exposed_value name (val n)\<rparr>)"
        using iu by (simp add: named_in_def)
      ultimately show ?thesis using pe by (simp add: consistent_names_def)
    qed
    have names: "list_all (\<lambda>x. x = name \<or> x = u) (map fst ext)"
      using sub by (auto simp: list_all_iff)
    then have names': "list_all (\<lambda>x. x = name \<or> x = u \<or> take 3 x = ''add'') (map fst ext)"
      by (auto simp: list_all_iff)
    show ?thesis
      using body c2 form fresh names names'
      by (intro exI[of _ "[]"] exI[of _ u] exI[of _ ext]) simp
  qed
qed

lemma bind_assoc_sum:
  "(case (case x of Inl e \<Rightarrow> Inl e | Inr p \<Rightarrow> f p) of Inl e \<Rightarrow> Inl e | Inr q \<Rightarrow> g q) =
   (case x of Inl e \<Rightarrow> Inl e | Inr p \<Rightarrow> (case f p of Inl e \<Rightarrow> Inl e | Inr q \<Rightarrow> g q))"
  by (cases x) simp_all

lemma name_tensors_Cons:
  "name_tensors ((name, tensor) # items) h acc =
     (case (case (if name = ''detection_classes'' then tensor_iadd h tensor LABEL_ID_OFFSET
                  else Inr (tensor, h)) of
              Inl e \<Rightarrow> Inl e
            | Inr (tensor1, h1) \<Rightarrow> tf_identity h1 tensor1 name) of
        Inl e \<Rightarrow> Inl e
      | Inr (tensor2, h2) \<Rightarrow> name_tensors items h2 (acc @ [name]))"
  unfolding bind_assoc_sum name_tensors.simps
  by (rule sum.case_cong) (auto split: prod.splits)

lemma name_tensors_names:
  "name_tensors items h acc = Inr (names, h') \<Longrightarrow> names = acc @ map fst items"
  by (induction items h acc rule: name_tensors.induct)
     (auto split: sum.splits if_splits prod.splits)

text \<open>The loop returns on a dict of tensors under plain names, and only adds objects.\<close>

lemma name_tensors_returns:
  assumes "consistent_names g" and "name_stack g = []"
    and "list_all (\<lambda>(name, r). plain_name name) items"
    and "tensor_values (objects g) items"
  shows "\<exists>g' new. name_tensors items g acc = Inr (acc @ map fst items, g') \<and>
           objects g' = objects g @ new"
  using assms
proof (induction items arbitrary: g acc)
  case Nil
  then show ?case by simp
next
  case (Cons it items)
  obtain k t where it: "it = (k, t)" by (cases it)
  from Cons.prems(3) it have pk: "plain_name k"
    and prest: "list_all (\<lambda>(name, r). plain_name name) items" by simp_all
  from Cons.prems(4) it obtain m where m: "obj_at (objects g) t = Some (TensorObj m)"
    and trest: "tensor_values (objects g) items"
    by (auto simp: tensor_values_def is_tensor_def split: option.splits obj.splits)
  from step_shape[OF Cons.prems(1,2) pk m] obtain gnew u ext where
    step: "(case (if k = ''detection_classes'' then tensor_iadd g t LABEL_ID_OFFSET
                 else Inr (t, g)) of
             Inl e \<Rightarrow> Inl e
           | Inr (tensor1, h1) \<Rightarrow> tf_identity h1 tensor1 k) =
            Inr (length (objects g @ gnew),
                 g\<lparr>objects := objects g @ gnew @
                      [TensorObj \<lparr>op_name = u, val = exposed_value k (val m)\<rparr>],
                    names_in_use := ext @ names_in_use g\<rparr>)"
    and c2: "consistent_names
            (g\<lparr>objects := objects g @ gnew @
                      [TensorObj \<lparr>op_name = u, val = exposed_value k (val m)\<rparr>],
                    names_in_use := ext @ names_in_use g\<rparr>)"
    by blast
  let ?g2 = "g\<lparr>objects := objects g @ gnew @
                      [TensorObj \<lparr>op_name = u, val = exposed_value k (val m)\<rparr>],
                names_in_use := ext @ names_in_use g\<rparr>"
  have s2: "name_stack ?g2 = []" using Cons.prems(2) by simp
  have t2: "tensor_values (objects ?g2) items"
    using trest by (auto simp: tensor_values_def list_all_iff intro: is_tensor_append)
  from Cons.IH[OF c2 s2 prest t2, of "acc @ [k]"] obtain g' new where
    run: "name_tensors items ?g2 (acc @ [k]) = Inr ((acc @ [k]) @ map fst items, g')"
    and ext': "objects g' = objects ?g2 @ new"
    by blast
  have whole: "name_tensors (it # items) g acc = Inr (acc @ map fst (it # items), g')"
    unfolding it name_tensors_Cons step using run by simp
  have "objects g' = objects g @ (gnew @ [TensorObj \<lparr>op_name = u, val = exposed_value k (val m)\<rparr>] @ new)"
    using ext' by simp
  with whole show ?case by blast
qed

text \<open>
  A key that is not in use when its turn comes gets an operation of exactly its name,
  which later operations cannot hide.
\<close>

lemma lookup_after_step:
  assumes "consistent_names g"
    and "\<not> in_use (names_in_use g) k"
    and "\<And>x. take 3 x \<noteq> ''add'' \<Longrightarrow> get_tensor_by_name gnew x = None"
    and "take 3 k \<noteq> ''add''"
    and "objects g' = (objects g @ gnew @ [TensorObj \<lparr>op_name = k, val = v\<rparr>]) @ new"
  shows "get_tensor_by_name (objects g') k = Some v"
proof -
  from assms(1) have "list_all (named_in (names_in_use g)) (objects g)"
    by (simp add: consistent_names_def)
  from not_in_use_no_tensor[OF this assms(2)] assms(3)[OF assms(4)]
  have "get_tensor_by_name (objects g @ gnew @ [TensorObj \<lparr>op_name = k, val = v\<rparr>]) k = Some v"
    by (simp add: get_tensor_by_name_append)
  then show ?thesis unfolding assms(5) by (subst get_tensor_by_name_append) simp
qed

text \<open>The entry \<open>detection_classes\<close>, when only that name is known to be unused.\<close>

lemma name_tensors_classes:
  assumes "consistent_names g" and "name_stack g = []"
    and "list_all (\<lambda>(name, r). plain_name name) items"
    and "tensor_values (objects g) items"
    and "distinct (map fst items)"
    and "\<not> in_use (names_in_use g) ''detection_classes''"
    and "(''detection_classes'', r) \<in> set items"
    and "obj_at (objects g) r = Some (TensorObj n)"
  shows "\<exists>g'. name_tensors items g acc = Inr (acc @ map fst items, g') \<and>
           get_tensor_by_name (objects g') ''detection_classes'' =
             Some (exposed_value ''detection_classes'' (val n))"
  using assms
proof (induction items arbitrary: g acc)
  case Nil
  then show ?case by simp
next
  case (Cons it items)
  obtain k t where it: "it = (k, t)" by (cases it)
  from Cons.prems(3) it have pk: "plain_name k"
    and prest: "list_all (\<lambda>(name, r). plain_name name) items" by simp_all
  from Cons.prems(4) it obtain m where m: "obj_at (objects g) t = Some (TensorObj m)"
    and trest: "tensor_values (objects g) items"
    by (auto simp: tensor_values_def is_tensor_def split: option.splits obj.splits)
  from Cons.prems(5) it have knot: "k \<notin> fst ` set items" and drest: "distinct (map fst items)"
    by auto
  from step_shape[OF Cons.prems(1,2) pk m] obtain gnew u ext where
    step: "(case (if k = ''detection_classes'' then tensor_iadd g t LABEL_ID_OFFSET
                 else Inr (t, g)) of
             Inl e \<Rightarrow> Inl e
           | Inr (tensor1, h1) \<Rightarrow> tf_identity h1 tensor1 k) =
            Inr (length (objects g @ gnew),
                 g\<lparr>objects := objects g @ gnew @
                      [TensorObj \<lparr>op_name = u, val = exposed_value k (val m)\<rparr>],
                    names_in_use := ext @ names_in_use g\<rparr>)"
    and c2: "consistent_names
            (g\<lparr>objects := objects g @ gnew @
                      [TensorObj \<lparr>op_name = u, val = exposed_value k (val m)\<rparr>],
                    names_in_use := ext @ names_in_use g\<rparr>)"
    and form: "u = k \<or> (\<exists>j. u = k @ ''_'' @ digits j)"
    and fresh: "\<not> in_use (names_in_use g) k \<longrightarrow> u = k"
    and plain: "k \<noteq> ''detection_classes'' \<longrightarrow> list_all (\<lambda>x. x = k \<or> x = u) (map fst ext)"
    and quiet: "\<And>x. take 3 x \<noteq> ''add'' \<Longrightarrow> get_tensor_by_name gnew x = None"
    by blast
  let ?g2 = "g\<lparr>objects := objects g @ gnew @
                      [TensorObj \<lparr>op_name = u, val = exposed_value k (val m)\<rparr>],
                names_in_use := ext @ names_in_use g\<rparr>"
  have s2: "name_stack ?g2 = []" using Cons.prems(2) by simp
  have t2: "tensor_values (objects ?g2) items"
    using trest by (auto simp: tensor_values_def list_all_iff intro: is_tensor_append)
  show ?case
  proof (cases "k = ''detection_classes''")
    case True
    with Cons.prems(7) it knot have "t = r" by (auto simp: image_iff)
    with m Cons.prems(8) have mn: "m = n" by simp
    from True fresh Cons.prems(6) have uk: "u = ''detection_classes''" by simp
    from name_tensors_returns[OF c2 s2 prest t2, of "acc @ [k]"] obtain g' new where
      run: "name_tensors items ?g2 (acc @ [k]) = Inr ((acc @ [k]) @ map fst items, g')"
      and ext': "objects g' = objects ?g2 @ new" by blast
    have whole: "name_tensors (it # items) g acc = Inr (acc @ map fst (it # items), g')"
      unfolding it name_tensors_Cons step using run by simp
    have "objects g' = (objects g @ gnew @
        [TensorObj \<lparr>op_name = ''detection_classes'',
                    val = exposed_value ''detection_classes'' (val n)\<rparr>]) @ new"
      using ext' uk True mn by simp
    from lookup_after_step[OF Cons.prems(1,6) quiet _ this]
    have "get_tensor_by_name (objects g') ''detection_classes'' =
        Some (exposed_value ''detection_classes'' (val n))" by simp
    with whole show ?thesis by blast
  next
    case False
    with Cons.prems(7) it have mem: "(''detection_classes'', r) \<in> set items" by auto
    have r2: "obj_at (objects ?g2) r = Some (TensorObj n)"
      using Cons.prems(8) obj_at_Some_less[OF Cons.prems(8)] by (simp add: obj_at_append)
    have "u \<noteq> ''detection_classes''"
      using form False numbered_name_not_classes[of k] by metis
    with plain False have "\<not> in_use ext ''detection_classes''"
      by (auto simp: list_all_iff in_use_def)
    with Cons.prems(6) have f2: "\<not> in_use (names_in_use ?g2) ''detection_classes''"
      by (simp add: in_use_append)
    from Cons.IH[OF c2 s2 prest t2 drest f2 mem r2, of "acc @ [k]"] obtain g' where
      run: "name_tensors items ?g2 (acc @ [k]) = Inr ((acc @ [k]) @ map fst items, g')"
      and look: "get_tensor_by_name (objects g') ''detection_classes'' =
             Some (exposed_value ''detection_classes'' (val n))" by blast
    have "name_tensors (it # items) g acc = Inr (acc @ map fst (it # items), g')"
      unfolding it name_tensors_Cons step using run by simp
    with look show ?thesis by blast
  qed
qed


text \<open>On a dict of tensors the loop only adds objects, whatever the names are.\<close>

lemma tensor_iadd_tensor_extends:
  "obj_at (objects g) r = Some (TensorObj n) \<Longrightarrow> tensor_iadd g r c = Inr (r', g') \<Longrightarrow>
     \<exists>new. objects g' = objects g @ new \<and> is_tensor (objects g') r'"
  by (auto simp: tensor_iadd_def is_tensor_def obj_at_def nth_append
      split: sum.splits prod.splits dest!: add_op_Inr)

lemma tf_identity_tensor_extends:
  "is_tensor (objects g) r \<Longrightarrow> tf_identity g r name = Inr (r', g') \<Longrightarrow>
     \<exists>new. objects g' = objects g @ new"
  by (auto simp: tf_identity_def is_tensor_def
      split: sum.splits prod.splits option.splits obj.splits dest!: add_op_Inr)

lemma name_tensors_extends:
  "tensor_values (objects g) items \<Longrightarrow> name_tensors items g acc = Inr (names, g') \<Longrightarrow>
     \<exists>new. objects g' = objects g @ new"
proof (induction items arbitrary: g acc)
  case Nil
  then show ?case by simp
next
  case (Cons it items)
  obtain k t where it: "it = (k, t)" by (cases it)
  from Cons.prems(1) it have tt: "is_tensor (objects g) t"
    and trest: "tensor_values (objects g) items"
    by (simp_all add: tensor_values_def)
  from tt obtain m where m: "obj_at (objects g) t = Some (TensorObj m)"
    by (auto simp: is_tensor_def split: option.splits obj.splits)
  from Cons.prems(2) it obtain t1 g1 t2 g2 where
    a: "(if k = ''detection_classes'' then tensor_iadd g t LABEL_ID_OFFSET else Inr (t, g))
          = Inr (t1, g1)"
    and b: "tf_identity g1 t1 k = Inr (t2, g2)"
    and c: "name_tensors items g2 (acc @ [k]) = Inr (names, g')"
    by (auto split: sum.splits prod.splits)
  from a m tt obtain n1 where g1: "objects g1 = objects g @ n1" and t1: "is_tensor (objects g1) t1"
    by (auto split: if_splits dest: tensor_iadd_tensor_extends)
  from tf_identity_tensor_extends[OF t1 b] obtain n2 where g2: "objects g2 = objects g1 @ n2"
    by blast
  have "tensor_values (objects g2) items"
    using trest g1 g2 by (auto simp: tensor_values_def list_all_iff intro: is_tensor_append)
  from Cons.IH[OF this c] obtain n3 where "objects g' = objects g2 @ n3" by blast
  with g1 g2 show ?case by simp
qed

subsection \<open>The example store\<close>

lemma example_tensor_dict: "tensor_dict example_store 2 example_items"
  by (simp add: tensor_dict_def example_store_def example_items_def obj_at_def
      tensor_values_def is_tensor_def)

lemma example_ready: "ready_for_names example_store example_items"
  by (simp add: ready_for_names_def example_store_def example_items_def consistent_names_def
      named_in_def in_use_def plain_name_def valid_op_name_def name_start_char_def name_char_def)


lemma example_classes:
  "obj_at (objects example_store) 1 =
     Some (TensorObj \<lparr>op_name = ''Postprocessor/classes'',
                      val = \<lparr>shape = [1, 2], data = [0, 2]\<rparr>\<rparr>)"
  by (simp add: example_store_def obj_at_def)


subsection \<open>The claims\<close>

lemma postprocess_succeeds:
  assumes "tensor_dict h d items" and "ready_for_names h items"
  shows "\<exists>h' new. object_detection_dict_to_tensor_dict h d args = Inr ((map fst items, False), h')
           \<and> objects h' = objects h @ new"
proof -
  from assms(1) have d: "obj_at (objects h) d = Some (DictObj items)"
    and tv: "tensor_values (objects h) items"
    by (simp_all add: tensor_dict_def)
  from assms(2) have c: "consistent_names h" and s: "name_stack h = []"
    and p: "list_all (\<lambda>(name, r). plain_name name) items"
    by (simp_all add: ready_for_names_def)
  from name_tensors_returns[OF c s p tv, of "[]"] d show ?thesis
    by (auto simp: object_detection_dict_to_tensor_dict_def OUTPUT_AS_IMAGE_def)
qed

text \<open>
  C1, as amended. Let the dict hold graph tensors only and let its keys be valid operation
  names that do not end in a slash; let the call be made at the root name scope of a
  consistent graph in which the name "detection_classes" is not in use. When the dict has
  an entry "detection_classes", the call returns and the tensor found under that name
  afterwards holds every original value plus the offset 1, in the same shape.
\<close>

theorem detection_classes_offset:
  assumes "tensor_dict h d items"
    and "ready_for_names h items"
    and "\<not> in_use (names_in_use h) ''detection_classes''"
    and "(''detection_classes'', r) \<in> set items"
    and "obj_at (objects h) r = Some (TensorObj n)"
  shows "\<exists>res h'. object_detection_dict_to_tensor_dict h d args = Inr (res, h') \<and>
           get_tensor_by_name (objects h') ''detection_classes'' =
             Some ((val n)\<lparr>data := map (\<lambda>x. x + 1) (data (val n))\<rparr>)"
proof -
  from assms(1) have d: "obj_at (objects h) d = Some (DictObj items)"
    and dist: "distinct (map fst items)" and tv: "tensor_values (objects h) items"
    by (simp_all add: tensor_dict_def)
  from assms(2) have c: "consistent_names h" and s: "name_stack h = []"
    and p: "list_all (\<lambda>(name, r). plain_name name) items"
    by (simp_all add: ready_for_names_def)
  from name_tensors_classes[OF c s p tv dist assms(3,4,5), of "[]"] obtain h' where
    run: "name_tensors items h [] = Inr ([] @ map fst items, h')"
    and look: "get_tensor_by_name (objects h') ''detection_classes'' =
             Some (exposed_value ''detection_classes'' (val n))" by blast
  from run d have "object_detection_dict_to_tensor_dict h d args =
      Inr ((map fst items, OUTPUT_AS_IMAGE), h')"
    by (simp add: object_detection_dict_to_tensor_dict_def)
  moreover from look
  have "get_tensor_by_name (objects h') ''detection_classes'' =
          Some ((val n)\<lparr>data := map (\<lambda>x. x + 1) (data (val n))\<rparr>)"
    by (simp add: exposed_value_def LABEL_ID_OFFSET_def)
  ultimately show ?thesis by blast
qed

theorem detection_classes_offset_witness:
  "tensor_dict example_store 2 example_items \<and>
   ready_for_names example_store example_items \<and>
   \<not> in_use (names_in_use example_store) ''detection_classes'' \<and>
   (''detection_classes'', 1) \<in> set example_items \<and>
   (\<exists>res h'. object_detection_dict_to_tensor_dict example_store 2 ([] :: unit list) = Inr (res, h') \<and>
      get_tensor_by_name (objects h') ''detection_classes'' = Some \<lparr>shape = [1, 2], data = [1, 3]\<rparr>)"
proof -
  have a: "(''detection_classes'', 1) \<in> set example_items"
    by (simp add: example_items_def)
  have b: "\<not> in_use (names_in_use example_store) ''detection_classes''"
    by (simp add: example_store_def in_use_def)
  from detection_classes_offset[OF example_tensor_dict example_ready b a example_classes,
      of "[] :: unit list"]
  show ?thesis using example_tensor_dict example_ready a b by simp
qed

text \<open>
  C1 as stated fails: when the graph already has an operation called "detection_classes"
  (here the classes tensor itself), TensorFlow calls the new identity operation
  "detection_classes_1", and the tensor found under "detection_classes" after the call
  holds the original values [0, 2], not [1, 3]. Every other condition of the amended
  claim holds of this store.
\<close>

theorem detection_classes_name_taken:
  "tensor_dict name_taken_store 2 example_items \<and>
   ready_for_names name_taken_store example_items \<and>
   (''detection_classes'', 1) \<in> set example_items \<and>
   obj_at (objects name_taken_store) 1 =
     Some (TensorObj \<lparr>op_name = ''detection_classes'', val = \<lparr>shape = [1, 2], data = [0, 2]\<rparr>\<rparr>) \<and>
   exposed_under ''detection_classes''
     (object_detection_dict_to_tensor_dict name_taken_store 2 ([] :: unit list)) =
     Some \<lparr>shape = [1, 2], data = [0, 2]\<rparr>"
  by code_simp

text \<open>
  C2. Whenever the call returns, the returned list of output node names is the list of the
  dict's keys in iteration order: every key occurs, once, and nothing else does. The call
  does return on a dict of tensors whose keys are valid operation names that do not end in
  a slash, at the root name scope of a consistent graph.
\<close>

theorem output_node_names_are_keys:
  assumes "obj_at (objects h) d = Some (DictObj items)"
    and "distinct (map fst items)"
  shows "(object_detection_dict_to_tensor_dict h d args = Inr ((names, flag), h') \<longrightarrow>
            names = map fst items \<and> distinct names \<and> set names = fst ` set items) \<and>
         (tensor_values (objects h) items \<and> ready_for_names h items \<longrightarrow>
            (\<exists>flag h'. object_detection_dict_to_tensor_dict h d args =
               Inr ((map fst items, flag), h')))"
proof (intro conjI impI)
  assume r: "object_detection_dict_to_tensor_dict h d args = Inr ((names, flag), h')"
  with assms(1) have "name_tensors items h [] = Inr (names, h')"
    by (auto simp: object_detection_dict_to_tensor_dict_def split: sum.splits)
  from name_tensors_names[OF this] have n: "names = map fst items" by simp
  show "names = map fst items" by (rule n)
  show "distinct names" using n assms(2) by simp
  show "set names = fst ` set items" using n by simp
next
  assume "tensor_values (objects h) items \<and> ready_for_names h items"
  with assms have "tensor_dict h d items" and "ready_for_names h items"
    by (simp_all add: tensor_dict_def)
  from postprocess_succeeds[OF this, of args]
  show "\<exists>flag h'. object_detection_dict_to_tensor_dict h d args = Inr ((map fst items, flag), h')"
    by blast
qed

theorem output_node_names_are_keys_witness:
  "obj_at (objects example_store) 2 = Some (DictObj example_items) \<and>
   distinct (map fst example_items) \<and>
   tensor_values (objects example_store) example_items \<and>
   ready_for_names example_store example_items \<and>
   (\<exists>flag h'. object_detection_dict_to_tensor_dict example_store 2 ([] :: unit list) =
        Inr (([''detection_boxes'', ''detection_classes''], flag), h'))"
proof -
  from example_tensor_dict have a: "obj_at (objects example_store) 2 = Some (DictObj example_items)"
    and b: "distinct (map fst example_items)"
    and c: "tensor_values (objects example_store) example_items"
    by (simp_all add: tensor_dict_def)
  from output_node_names_are_keys[OF a b, of "[] :: unit list"] c example_ready
  have "\<exists>flag h'. object_detection_dict_to_tensor_dict example_store 2 ([] :: unit list) =
        Inr ((map fst example_items, flag), h')" by blast
  then show ?thesis using a b c example_ready by (simp add: example_items_def)
qed

text \<open>
  C4. The output-as-image flag is false: no call at all returns it true, and the call on a
  dict of tensors whose keys are valid operation names that do not end in a slash returns,
  with the flag false.
\<close>

theorem output_as_image_false:
  "(tensor_dict h d items \<and> ready_for_names h items \<longrightarrow>
      (\<exists>names h'. object_detection_dict_to_tensor_dict h d args = Inr ((names, False), h'))) \<and>
   (object_detection_dict_to_tensor_dict h d args = Inr ((names, flag), h') \<longrightarrow> flag = False)"
proof (intro conjI impI)
  assume "tensor_dict h d items \<and> ready_for_names h items"
  then have "tensor_dict h d items" and "ready_for_names h items" by simp_all
  from postprocess_succeeds[OF this, of args]
  show "\<exists>names h'. object_detection_dict_to_tensor_dict h d args = Inr ((names, False), h')"
    by blast
next
  assume "object_detection_dict_to_tensor_dict h d args = Inr ((names, flag), h')"
  then show "flag = False"
    by (auto simp: object_detection_dict_to_tensor_dict_def OUTPUT_AS_IMAGE_def
        split: option.splits obj.splits sum.splits)
qed

theorem output_as_image_false_witness:
  "tensor_dict example_store 2 example_items \<and>
   ready_for_names example_store example_items \<and>
   (\<exists>names h'. object_detection_dict_to_tensor_dict example_store 2 ([] :: unit list) =
        Inr ((names, False), h'))"
  using output_as_image_false[of example_store 2 example_items "[] :: unit list"]
    example_tensor_dict example_ready
  by simp




text \<open>On a dict of tensors, a call that returns has only added objects to the store.\<close>

lemma postprocess_extends:
  assumes "tensor_dict h d items"
    and "object_detection_dict_to_tensor_dict h d args = Inr (res, h')"
  shows "\<exists>new. objects h' = objects h @ new"
proof -
  from assms(1) have d: "obj_at (objects h) d = Some (DictObj items)"
    and tv: "tensor_values (objects h) items" by (simp_all add: tensor_dict_def)
  from assms(2) d obtain names where "name_tensors items h [] = Inr (names, h')"
    by (auto simp: object_detection_dict_to_tensor_dict_def split: sum.splits)
  from name_tensors_extends[OF tv this] show ?thesis .
qed

text \<open>
  C9, as amended. When every value of the dict is a graph tensor, a call that returns has
  not mutated its argument: the store before the call is a prefix of the store after it, so
  the dict still holds the same items and every value is still the same object; the
  offset lives in newly created tensors only. With valid operation names that do not end
  in a slash as keys, the call returns.
\<close>

theorem input_mapping_not_mutated:
  assumes "tensor_dict h d items"
  shows "(object_detection_dict_to_tensor_dict h d args = Inr (res, h') \<longrightarrow>
            take (length (objects h)) (objects h') = objects h \<and>
            obj_at (objects h') d = Some (DictObj items) \<and>
            list_all (\<lambda>(name, r). obj_at (objects h') r = obj_at (objects h) r) items) \<and>
         (ready_for_names h items \<longrightarrow>
            (\<exists>res h'. object_detection_dict_to_tensor_dict h d args = Inr (res, h')))"
proof (intro conjI impI)
  assume r: "object_detection_dict_to_tensor_dict h d args = Inr (res, h')"
  from postprocess_extends[OF assms r] obtain new where g: "objects h' = objects h @ new"
    by blast
  from assms have d: "obj_at (objects h) d = Some (DictObj items)"
    and tv: "tensor_values (objects h) items" by (simp_all add: tensor_dict_def)
  show "take (length (objects h)) (objects h') = objects h" using g by simp
  show "obj_at (objects h') d = Some (DictObj items)"
    using d obj_at_Some_less[OF d] g by (simp add: obj_at_append)
  show "list_all (\<lambda>(name, r). obj_at (objects h') r = obj_at (objects h) r) items"
    using tv g
    by (auto simp: list_all_iff tensor_values_def is_tensor_def obj_at_def nth_append
        split: option.splits if_splits)
next
  assume "ready_for_names h items"
  from postprocess_succeeds[OF assms this, of args]
  show "\<exists>res h'. object_detection_dict_to_tensor_dict h d args = Inr (res, h')" by blast
qed

theorem input_mapping_not_mutated_witness:
  "tensor_dict example_store 2 example_items \<and>
   ready_for_names example_store example_items \<and>
   (\<exists>res h'. object_detection_dict_to_tensor_dict example_store 2 ([] :: unit list) = Inr (res, h') \<and>
      take 3 (objects h') = objects example_store \<and>
      obj_at (objects h') 2 = Some (DictObj example_items) \<and>
      obj_at (objects h') 0 = obj_at (objects example_store) 0 \<and>
      obj_at (objects h') 1 = obj_at (objects example_store) 1)"
proof -
  have len: "length (objects example_store) = 3" by (simp add: example_store_def)
  note t = input_mapping_not_mutated[OF example_tensor_dict, of "[] :: unit list"]
  from t example_ready obtain res h' where
    r: "object_detection_dict_to_tensor_dict example_store 2 ([] :: unit list) = Inr (res, h')"
    by blast
  from t[of res h'] r have
    "take 3 (objects h') = objects example_store"
    "obj_at (objects h') 2 = Some (DictObj example_items)"
    "obj_at (objects h') 0 = obj_at (objects example_store) 0 \<and>
     obj_at (objects h') 1 = obj_at (objects example_store) 1"
    unfolding len by (auto simp: example_items_def)
  with r example_tensor_dict example_ready show ?thesis by blast
qed

text \<open>
  C9 as stated fails: when the value under "detection_classes" is a numpy array, \<open>+=\<close>
  changes it in place, and after the call the caller's array holds [1, 3] instead of
  [0, 2].
\<close>

theorem ndarray_changed_in_place:
  "obj_at (objects ndarray_store) 2 = Some (DictObj example_items) \<and>
   (''detection_classes'', 1) \<in> set example_items \<and>
   obj_at (objects ndarray_store) 1 = Some (NdarrayObj \<lparr>shape = [1, 2], data = [0, 2]\<rparr>) \<and>
   object_after 1 (object_detection_dict_to_tensor_dict ndarray_store 2 ([] :: unit list)) =
     Some (NdarrayObj \<lparr>shape = [1, 2], data = [1, 3]\<rparr>)"
  by code_simp

text \<open>
  C10. The extra arguments have no influence: with any two lists of extra arguments, of
  whatever types, the preprocessing function returns the same tensor or error, and the
  postprocessing function the same names, flag and store.
\<close>

theorem extra_arguments_ignored:
  "bitstring_to_uint8_tensor decode_png input_bytes channels args1 =
     bitstring_to_uint8_tensor decode_png input_bytes channels args2 \<and>
   object_detection_dict_to_tensor_dict h d args1 =
     object_detection_dict_to_tensor_dict h d args2"
  by (simp add: bitstring_to_uint8_tensor_def object_detection_dict_to_tensor_dict_def)

section \<open>Properties of the two image helpers\<close>

subsection \<open>The TensorFlow operations at the arguments the code passes\<close>

lemma tf_reshape_scalar:
  "tf_reshape t [] = (if num_elements t = 1 then Inr (t\<lparr>shape := []\<rparr>) else Inl InvalidArgumentError)"
  by (auto simp: tf_reshape_def Let_def)

lemma tf_reshape_square:
  "tf_reshape t [s, s, 3] =
     (if 0 \<le> s \<and> int (num_elements t) = s * s * 3
      then Inr (t\<lparr>shape := [nat s, nat s, 3]\<rparr>) else Inl InvalidArgumentError)"
  by (auto simp: tf_reshape_def Let_def)

lemma tf_expand_dims_front:
  "tf_expand_dims t 0 = Inr (t\<lparr>shape := 1 # shape t\<rparr>)"
  by (simp add: tf_expand_dims_def Let_def)

lemma batch_of_one:
  assumes "num_elements input_bytes = 1" and "data input_bytes = [b]"
    and "codec b channels = Inr img"
  shows "bitstring_to_uint8_tensor codec input_bytes channels args =
           Inr (img\<lparr>shape := 1 # shape img\<rparr>)"
  using assms
  by (simp add: bitstring_to_uint8_tensor_def tf_reshape_scalar decode_image_def
      tf_expand_dims_front)

subsection \<open>The claims\<close>

text \<open>
  C3, as amended. For the bytes of a PNG file and a channel count that \<open>decode_png\<close>
  accepts (0, 1, 3 or 4), the preprocessing function returns the decoded uint8 image behind
  one new leading dimension of size one: the rank is the image's rank plus one, and the
  shape is [1, H, W, C], where C is the requested channel count when that is 1, 3 or 4 and
  the file's own channel count when the request is 0. For a 3-channel PNG decoded with
  channels 3 that is [1, H, W, 3].
\<close>

theorem preprocessing_adds_batch_dimension:
  assumes "num_elements input_bytes = 1"
    and "data input_bytes = [b]"
    and "read_png b = Some p"
    and "channels \<in> {0, 1, 3, 4}"
  shows "\<exists>img out.
           tf_decode_png read_png b channels = Inr img \<and>
           bitstring_to_uint8_tensor (tf_decode_png read_png) input_bytes channels args = Inr out \<and>
           rank out = rank img + 1 \<and> data out = data img \<and>
           shape out = [1, png_height p, png_width p,
                        if channels = 0 then png_channels p else nat channels]"
proof -
  let ?c = "if channels = 0 then png_channels p else nat channels"
  let ?img = "\<lparr>shape = [png_height p, png_width p, ?c], data = png_pixels p ?c\<rparr>"
  have d: "tf_decode_png read_png b channels = Inr ?img"
    using assms(3,4) by (simp add: tf_decode_png_def Let_def)
  from batch_of_one[where codec = "tf_decode_png read_png" and args = args, OF assms(1,2) d]
  have "bitstring_to_uint8_tensor (tf_decode_png read_png) input_bytes channels args =
          Inr (?img\<lparr>shape := 1 # shape ?img\<rparr>)" .
  with d show ?thesis by (simp add: rank_def)
qed

theorem preprocessing_adds_batch_dimension_witness:
  "num_elements \<lparr>shape = [1], data = [[2, 1, 3, 7, 7, 7, 9, 9, 9 :: 8 word]]\<rparr> = 1 \<and>
   png_channels (the (raw_png [2, 1, 3, 7, 7, 7, 9, 9, 9])) = 3 \<and>
   bitstring_to_uint8_tensor (tf_decode_png raw_png)
       \<lparr>shape = [1], data = [[2, 1, 3, 7, 7, 7, 9, 9, 9]]\<rparr> 3 ([] :: unit list) =
     Inr \<lparr>shape = [1, 2, 1, 3], data = [7, 7, 7, 9, 9, 9]\<rparr>"
proof -
  let ?b = "[2, 1, 3, 7, 7, 7, 9, 9, 9 :: 8 word]"
  let ?in = "\<lparr>shape = [1], data = [?b]\<rparr>"
  let ?p = "the (raw_png ?b)"
  have a: "num_elements ?in = 1" by (simp add: num_elements_def)
  have b: "data ?in = [?b]" by simp
  have c: "raw_png ?b = Some ?p" by simp
  have d: "(3 :: int) \<in> {0, 1, 3, 4}" by simp
  have p: "png_height ?p = 2" "png_width ?p = 1" "png_channels ?p = 3"
    "png_pixels ?p 3 = [7, 7, 7, 9, 9, 9]" by simp_all
  from preprocessing_adds_batch_dimension[where read_png = raw_png and args = "[] :: unit list",
      OF a b c d]
  obtain img out where
    i: "tf_decode_png raw_png ?b 3 = Inr img"
    and o: "bitstring_to_uint8_tensor (tf_decode_png raw_png) ?in 3 ([] :: unit list) = Inr out"
    and "data out = data img" and "shape out = [1, 2, 1, 3]"
    unfolding p by auto
  moreover from i have "data img = [7, 7, 7, 9, 9, 9]"
    by (auto simp: tf_decode_png_def Let_def)
  ultimately have "out = \<lparr>shape = [1, 2, 1, 3], data = [7, 7, 7, 9, 9, 9]\<rparr>" by simp
  with o a p(3) show ?thesis by simp
qed

text \<open>
  C3 as stated fails at the channel count 0: a 3-channel image is returned with 3
  channels, not with the requested number.
\<close>

theorem channels_zero_keeps_file_channels:
  "bitstring_to_uint8_tensor (tf_decode_png raw_png)
       \<lparr>shape = [1], data = [[2, 1, 3, 7, 7, 7, 9, 9, 9]]\<rparr> 0 ([] :: unit list) =
     Inr \<lparr>shape = [1, 2, 1, 3], data = [7, 7, 7, 9, 9, 9]\<rparr> \<and>
   last [1, 2, 1, 3] \<noteq> (0 :: nat)"
  by (simp add: bitstring_to_uint8_tensor_def tf_reshape_scalar decode_image_def
      tf_expand_dims_front tf_decode_png_def num_elements_def)

text \<open>
  C8, as amended. The client's helper succeeds exactly when the number of elements of the
  decoded image is image_size * image_size * 3 (and image_size is not negative); the final
  reshape fails otherwise. The height and the width themselves are not compared.
\<close>

theorem client_reshape_checks_element_count:
  assumes "num_elements input_bytes = 1"
    and "data input_bytes = [b]"
    and "decode_jpeg b 3 = Inr img"
  shows "client_bitstring_to_uint8_tensor decode_jpeg self input_bytes =
           (if 0 \<le> image_size self \<and>
               int (num_elements img) = image_size self * image_size self * 3
            then Inr (img\<lparr>shape := [nat (image_size self), nat (image_size self), 3]\<rparr>)
            else Inl InvalidArgumentError)"
  using assms
  by (simp add: client_bitstring_to_uint8_tensor_def tf_reshape_scalar decode_image_def
      tf_reshape_square)

lemma wide_image_decoded:
  "raw_codec wide_image 3 = Inr \<lparr>shape = [2, 8, 3], data = replicate 48 0\<rparr>"
  by (simp add: wide_image_def)

theorem client_reshape_checks_element_count_witness:
  "num_elements \<lparr>shape = [], data = [wide_image]\<rparr> = 1 \<and>
   raw_codec wide_image 3 = Inr \<lparr>shape = [2, 8, 3], data = replicate 48 0\<rparr> \<and>
   client_bitstring_to_uint8_tensor raw_codec example_client \<lparr>shape = [], data = [wide_image]\<rparr> =
     Inr \<lparr>shape = [4, 4, 3], data = replicate 48 0\<rparr> \<and>
   client_bitstring_to_uint8_tensor raw_codec (example_client\<lparr>image_size := 5\<rparr>)
       \<lparr>shape = [], data = [wide_image]\<rparr> = Inl InvalidArgumentError"
proof -
  let ?in = "\<lparr>shape = [], data = [wide_image]\<rparr>"
  have a: "num_elements ?in = 1" by (simp add: num_elements_def)
  have b: "data ?in = [wide_image]" by simp
  note t = client_reshape_checks_element_count[where decode_jpeg = raw_codec,
      OF a b wide_image_decoded]
  show ?thesis
    using a wide_image_decoded t[of example_client] t[of "example_client\<lparr>image_size := 5\<rparr>"]
    by (simp add: example_client_def num_elements_def)
qed

text \<open>
  C8 as stated fails: with image_size 4, an image decoded as 2 by 8 pixels of 3 channels is
  accepted and handed on as a 4 by 4 image.
\<close>

theorem client_accepts_non_square_image:
  "raw_codec wide_image 3 = Inr \<lparr>shape = [2, 8, 3], data = replicate 48 0\<rparr> \<and>
   image_size example_client = 4 \<and>
   client_bitstring_to_uint8_tensor raw_codec example_client \<lparr>shape = [], data = [wide_image]\<rparr> =
     Inr \<lparr>shape = [4, 4, 3], data = replicate 48 0\<rparr>"
  by (simp add: wide_image_def example_client_def client_bitstring_to_uint8_tensor_def
      tf_reshape_scalar tf_reshape_square decode_image_def num_elements_def)

section \<open>Properties of the inference adapter\<close>

text \<open>
  C5, as amended. The adapter applies four stages in this order, each on the state the
  one before it left: the conversion to float, then the model's preprocess, predict and
  postprocess steps. It returns what the postprocess step returned, unchanged, and it
  returns exactly when all four stages do.
\<close>

theorem inference_applies_four_stages:
  "object_detection_inference to_float detection_model input_tensors s = Inr (result, s') \<longleftrightarrow>
     (\<exists>inputs s1 preprocessed_inputs true_image_shapes s2 output_tensors s3.
        to_float input_tensors s = Inr (inputs, s1) \<and>
        preprocess detection_model inputs s1 = Inr ((preprocessed_inputs, true_image_shapes), s2) \<and>
        predict detection_model preprocessed_inputs true_image_shapes s2 = Inr (output_tensors, s3) \<and>
        postprocess detection_model output_tensors true_image_shapes s3 = Inr (result, s'))"
  unfolding object_detection_inference_def
  by (cases "to_float input_tensors s") (auto split: sum.splits prod.splits)

theorem inference_applies_four_stages_witness:
  "object_detection_inference tracing_to_float tracing_model
      \<lparr>shape = [1, 1, 1, 3], data = [1, 2, 255]\<rparr> [] =
     Inr ([(''detection_classes'', \<lparr>shape = [1, 1, 1, 3], data = [1, 2, 255]\<rparr>)],
          [''to_float'', ''preprocess'', ''predict'', ''postprocess''])"
proof -
  let ?x = "\<lparr>shape = [1, 1, 1, 3], data = [1, 2, 255 :: 8 word]\<rparr>"
  let ?f = "\<lparr>shape = [1, 1, 1, 3], data = [1, 2, 255 :: int]\<rparr>"
  have "tracing_to_float ?x [] = Inr (?f, [''to_float'']) \<and>
        preprocess tracing_model ?f [''to_float''] =
          Inr ((?f, [1, 1, 1, 3]), [''to_float'', ''preprocess'']) \<and>
        predict tracing_model ?f [1, 1, 1, 3] [''to_float'', ''preprocess''] =
          Inr (?f, [''to_float'', ''preprocess'', ''predict'']) \<and>
        postprocess tracing_model ?f [1, 1, 1, 3] [''to_float'', ''preprocess'', ''predict''] =
          Inr ([(''detection_classes'', ?f)],
               [''to_float'', ''preprocess'', ''predict'', ''postprocess''])"
    by (simp add: tracing_to_float_def tracing_model_def traced_def)
  then show ?thesis
    unfolding inference_applies_four_stages by blast
qed

text \<open>
  C5 as stated fails on the number of stages: a run of the adapter on the tracing model
  records four stages, not three.
\<close>

theorem inference_stage_count:
  "object_detection_inference tracing_to_float tracing_model
      \<lparr>shape = [1, 1, 1, 3], data = [1, 2, 255]\<rparr> [] =
     Inr ([(''detection_classes'', \<lparr>shape = [1, 1, 1, 3], data = [1, 2, 255]\<rparr>)],
          [''to_float'', ''preprocess'', ''predict'', ''postprocess'']) \<and>
   length [''to_float'', ''preprocess'', ''predict'', ''postprocess''] \<noteq> (3 :: nat)"
  by (simp add: object_detection_inference_def tracing_to_float_def tracing_model_def traced_def)

section \<open>Properties of the client\<close>

text \<open>What a visualization call that returns has done.\<close>

lemma visualize_Inr:
  assumes "visualize libs decode_jpeg self input_image response i w = Inr w'"
  shows "\<exists>label_map detection_boxes detection_classes detection_scores
            image_array boxes classes scores drawn_array.
           response ''detection_boxes'' = Some detection_boxes \<and>
           response ''detection_classes'' = Some detection_classes \<and>
           response ''detection_scores'' = Some detection_scores \<and>
           client_bitstring_to_uint8_tensor decode_jpeg self \<lparr>shape = [], data = [input_image]\<rparr>
             = Inr image_array \<and>
           asarray_float32 libs detection_boxes = Inr boxes \<and>
           asarray_uint8 libs detection_classes = Inr classes \<and>
           asarray_float32 libs detection_scores = Inr scores \<and>
           label_files w (label_path self) = Some label_map \<and>
           visualize_boxes_and_labels_on_image_array libs image_array boxes classes scores
             (create_category_index libs (convert_label_map_to_categories libs label_map 1 True))
             = Inr drawn_array \<and>
           w' = w\<lparr>labelmap_loads := labelmap_loads w @ [label_path self],
                  saved_images := saved_images w @
                    [(output_dir self @ ''/images/'' @ output_filename self @ str i
                        @ output_extension self, drawn_array)]\<rparr>"
  using assms unfolding visualize_def get_category_index_def load_labelmap_def
    save_image_array_as_png_def Let_def
  by (auto split: option.splits sum.splits prod.splits if_splits)

lemma visualize_calls_loads:
  assumes "visualize_calls libs decode_jpeg self calls w = Inr w'"
  shows "labelmap_loads w' = labelmap_loads w @ replicate (length calls) (label_path self)"
  using assms
proof (induction calls arbitrary: w)
  case Nil
  then show ?case by simp
next
  case (Cons c calls)
  obtain input_image response i where c: "c = (input_image, response, i)"
    by (cases c)
  from Cons.prems c obtain w1 where
    v: "visualize libs decode_jpeg self input_image response i w = Inr w1"
    and rest: "visualize_calls libs decode_jpeg self calls w1 = Inr w'"
    by (auto split: sum.splits)
  from visualize_Inr[OF v] have "labelmap_loads w1 = labelmap_loads w @ [label_path self]"
    by auto
  with Cons.IH[OF rest] show ?case
    by (simp add: replicate_append_same)
qed

text \<open>
  C6, as amended. Every visualization call that returns has loaded the label map from the
  client's label path once, built the category index from the map it has just loaded and
  passed that index to the drawing call, whose result it saves; so a run of k such calls
  on one client instance loads the label map k times.
\<close>

theorem label_map_loaded_on_every_call:
  "(visualize libs decode_jpeg self input_image response i w = Inr w' \<longrightarrow>
      (\<exists>label_map image_array boxes classes scores drawn_array.
         label_files w (label_path self) = Some label_map \<and>
         visualize_boxes_and_labels_on_image_array libs image_array boxes classes scores
           (create_category_index libs (convert_label_map_to_categories libs label_map 1 True))
           = Inr drawn_array \<and>
         w' = w\<lparr>labelmap_loads := labelmap_loads w @ [label_path self],
                saved_images := saved_images w @
                  [(output_dir self @ ''/images/'' @ output_filename self @ str i
                      @ output_extension self, drawn_array)]\<rparr>)) \<and>
   (visualize_calls libs decode_jpeg self calls w = Inr w'' \<longrightarrow>
      labelmap_loads w'' = labelmap_loads w @ replicate (length calls) (label_path self))"
proof (intro conjI impI)
  assume "visualize libs decode_jpeg self input_image response i w = Inr w'"
  from visualize_Inr[OF this]
  show "\<exists>label_map image_array boxes classes scores drawn_array.
         label_files w (label_path self) = Some label_map \<and>
         visualize_boxes_and_labels_on_image_array libs image_array boxes classes scores
           (create_category_index libs (convert_label_map_to_categories libs label_map 1 True))
           = Inr drawn_array \<and>
         w' = w\<lparr>labelmap_loads := labelmap_loads w @ [label_path self],
                saved_images := saved_images w @
                  [(output_dir self @ ''/images/'' @ output_filename self @ str i
                      @ output_extension self, drawn_array)]\<rparr>"
    by blast
next
  assume "visualize_calls libs decode_jpeg self calls w = Inr w''"
  then show "labelmap_loads w'' = labelmap_loads w @ replicate (length calls) (label_path self)"
    by (rule visualize_calls_loads)
qed

lemma example_one_call:
  "\<not> isl (visualize example_libraries raw_codec example_client example_image example_response 0
      example_world)"
  by code_simp

lemma example_two_calls:
  "\<not> isl (visualize_calls example_libraries raw_codec example_client
      [(example_image, example_response, 0), (example_image, example_response, 1)]
      example_world)"
  by code_simp

lemma example_str: "str 0 = ''0''"
  by code_simp

theorem label_map_loaded_on_every_call_witness:
  "(\<exists>w'. visualize example_libraries raw_codec example_client example_image example_response 0
      example_world = Inr w' \<and>
      labelmap_loads w' = [''label_map.pbtxt''] \<and>
      map fst (saved_images w') = [''output/images/output0.png'']) \<and>
   (\<exists>w''. visualize_calls example_libraries raw_codec example_client
      [(example_image, example_response, 0), (example_image, example_response, 1)]
      example_world = Inr w'' \<and>
    labelmap_loads w'' = [''label_map.pbtxt'', ''label_map.pbtxt''])"
proof -
  from example_one_call obtain w' where
    v: "visualize example_libraries raw_codec example_client example_image example_response 0
      example_world = Inr w'"
    by (cases "visualize example_libraries raw_codec example_client example_image
          example_response 0 example_world") auto
  from example_two_calls obtain w'' where
    w: "visualize_calls example_libraries raw_codec example_client
      [(example_image, example_response, 0), (example_image, example_response, 1)]
      example_world = Inr w''"
    by (cases "visualize_calls example_libraries raw_codec example_client
      [(example_image, example_response, 0), (example_image, example_response, 1)]
      example_world") auto
  note t = label_map_loaded_on_every_call[of example_libraries raw_codec example_client
      example_image example_response 0 example_world w'
      "[(example_image, example_response, 0), (example_image, example_response, 1)]" w'']
  from t[THEN conjunct1, rule_format, OF v] obtain drawn_array where
    "w' = example_world\<lparr>labelmap_loads := labelmap_loads example_world @ [label_path example_client],
            saved_images := saved_images example_world @
              [(output_dir example_client @ ''/images/'' @ output_filename example_client @ str 0
                  @ output_extension example_client, drawn_array)]\<rparr>"
    by (elim exE conjE)
  then have f1: "labelmap_loads w' = [''label_map.pbtxt'']"
    and f2: "map fst (saved_images w') = [''output/images/output0.png'']"
    by (simp_all add: example_world_def example_client_def example_str)
  from t[THEN conjunct2, rule_format, OF w]
  have f3: "labelmap_loads w'' = [''label_map.pbtxt'', ''label_map.pbtxt'']"
    by (simp add: example_world_def example_client_def)
  show ?thesis
  proof (intro conjI)
    show "\<exists>w'. visualize example_libraries raw_codec example_client example_image
        example_response 0 example_world = Inr w' \<and>
      labelmap_loads w' = [''label_map.pbtxt''] \<and>
      map fst (saved_images w') = [''output/images/output0.png'']"
      by (intro exI[of _ w'] conjI) (rule v f1 f2)+
    show "\<exists>w''. visualize_calls example_libraries raw_codec example_client
      [(example_image, example_response, 0), (example_image, example_response, 1)]
      example_world = Inr w'' \<and>
      labelmap_loads w'' = [''label_map.pbtxt'', ''label_map.pbtxt'']"
      by (intro exI[of _ w''] conjI) (rule w f3)+
  qed
qed

text \<open>
  C6 as stated fails: two visualization calls on one client instance load the label map
  twice.
\<close>

theorem label_map_reloaded:
  "map_sum id labelmap_loads
     (visualize_calls example_libraries raw_codec example_client
        [(example_image, example_response, 0), (example_image, example_response, 1)]
        example_world) =
   Inr [''label_map.pbtxt'', ''label_map.pbtxt'']"
  by code_simp

end
